theory Spec2Isabelle
  imports Main
begin

section \<open>Characters and regular expressions\<close>

text \<open>
  File names are modelled as \<open>string\<close>, one \<open>char\<close> per character of the Python
  \<open>str\<close>. The character classes below (\<open>\w\<close>, \<open>\d\<close>, case folding) are the
  ASCII ones, so the model speaks about ASCII file names; on them Python's Unicode
  classes agree with the ASCII ones. On a name with other letters the program can
  differ from the model: for Python \<open>\w\<close> holds of every Unicode letter and digit
  and \<open>str.lower()\<close> lowers every cased letter.
\<close>

definition is_upper :: "char \<Rightarrow> bool" where
  "is_upper c = (65 \<le> (of_char c :: nat) \<and> (of_char c :: nat) \<le> 90)"

definition is_lower :: "char \<Rightarrow> bool" where
  "is_lower c = (97 \<le> (of_char c :: nat) \<and> (of_char c :: nat) \<le> 122)"

definition is_digit :: "char \<Rightarrow> bool" where
  "is_digit c = (48 \<le> (of_char c :: nat) \<and> (of_char c :: nat) \<le> 57)"

text \<open>\<open>\w\<close>: letters, digits and the underscore.\<close>

definition is_word :: "char \<Rightarrow> bool" where
  "is_word c = (is_upper c \<or> is_lower c \<or> is_digit c \<or> c = CHR ''_'')"

text \<open>\<open>str.lower()\<close>, one character at a time.\<close>

definition lower_char :: "char \<Rightarrow> char" where
  "lower_char c = (if is_upper c then char_of ((of_char c :: nat) + 32) else c)"

definition lower :: "string \<Rightarrow> string" where
  "lower s = map lower_char s"

text \<open>Two characters are the same under \<open>re.IGNORECASE\<close>.\<close>

definition same_ci :: "char \<Rightarrow> char \<Rightarrow> bool" where
  "same_ci c d = (lower_char c = lower_char d)"

text \<open>
  The patterns of the rule table use only these constructs of Python's \<open>re\<close>
  syntax: a literal character (an escaped parenthesis is a literal), an optional
  literal \<open>c?\<close>, the word boundary \<open>\b\<close> and \<open>\d+\<close>. A pattern is the
  sequence of its items.
\<close>

datatype atom = Chr char | Opt char | WordB | Digits

type_synonym regex = "atom list"

definition lit :: "string \<Rightarrow> regex" where
  "lit s = map Chr s"

text \<open>
  \<open>\b\<close> holds at a position when exactly one of the character before it and
  the character after it is a word character; the start and the end of the string
  count as non-word. \<open>prev\<close> is the character before the position, if any.
\<close>

definition at_boundary :: "char option \<Rightarrow> string \<Rightarrow> bool" where
  "at_boundary prev s =
     ((case prev of None \<Rightarrow> False | Some c \<Rightarrow> is_word c)
      \<noteq> (case s of [] \<Rightarrow> False | d # _ \<Rightarrow> is_word d))"

text \<open>
  \<open>match_here p prev s\<close>: pattern \<open>p\<close> matches a prefix of \<open>s\<close>, with
  backtracking over the optional item and over the number of digits of \<open>\d+\<close>.
\<close>

fun match_here :: "regex \<Rightarrow> char option \<Rightarrow> string \<Rightarrow> bool" where
  "match_here [] prev s = True"
| "match_here (Chr c # r) prev [] = False"
| "match_here (Chr c # r) prev (d # s) = (same_ci c d \<and> match_here r (Some d) s)"
| "match_here (Opt c # r) prev [] = match_here r prev []"
| "match_here (Opt c # r) prev (d # s) =
     ((same_ci c d \<and> match_here r (Some d) s) \<or> match_here r prev (d # s))"
| "match_here (WordB # r) prev s = (at_boundary prev s \<and> match_here r prev s)"
| "match_here (Digits # r) prev [] = False"
| "match_here (Digits # r) prev (d # s) =
     (is_digit d \<and> (match_here (Digits # r) (Some d) s \<or> match_here r (Some d) s))"

text \<open>\<open>re.search\<close>: the pattern matches at some position of the string.\<close>

fun search_from :: "regex \<Rightarrow> char option \<Rightarrow> string \<Rightarrow> bool" where
  "search_from p prev [] = match_here p prev []"
| "search_from p prev (d # s) = (match_here p prev (d # s) \<or> search_from p (Some d) s)"

definition re_search :: "regex \<Rightarrow> string \<Rightarrow> bool" where
  "re_search p s = search_from p None s"

section \<open>The rule table\<close>

record rule =
  folder :: string
  "keywords" :: "regex list"
  priority :: nat

text \<open>\<open>\bword\b\<close>, the shape of most keywords.\<close>

definition word :: "string \<Rightarrow> regex" where
  "word s = WordB # lit s @ [WordB]"

text \<open>
  \<open>GENRE_RULES\<close> is a dict; it is kept as the list of its items in insertion
  order, which is the order \<open>GENRE_RULES.items()\<close> yields.
\<close>

definition GENRE_RULES :: "(string \<times> rule) list" where
  "GENRE_RULES =
   [(''stems_vocals'',
       \<lparr>folder = ''06_Stems_Production/Vocals'',
        keywords = [lit ''(vocal'' @ [Opt CHR ''s''] @ lit '')''],
        priority = 1\<rparr>),
    (''stems_instrumental'',
       \<lparr>folder = ''06_Stems_Production/Instrumental'',
        keywords = [word ''instrumental'', lit ''(instrumental)''],
        priority = 1\<rparr>),
    (''stems_other'',
       \<lparr>folder = ''06_Stems_Production/Stems'',
        keywords = [lit ''(bass)'', lit ''(drum'' @ [Opt CHR ''s''] @ lit '')'',
                    lit ''(other)'', lit ''(stem''],
        priority = 1\<rparr>),
    (''remixes_artists'',
       \<lparr>folder = ''05_Remixes_Edits/Artist_Remixes'',
        keywords = [word ''anyma'', word ''argy'', word ''klingande'', word ''jubel'',
                    lit ''son of son''],
        priority = 2\<rparr>),
    (''remixes_extended'',
       \<lparr>folder = ''05_Remixes_Edits/Extended_Versions'',
        keywords = [word ''remix'', word ''edit'', WordB # lit ''ext v'' @ [Digits],
                    word ''extended''],
        priority = 2\<rparr>),
    (''electronic_house'',
       \<lparr>folder = ''01_Electronic_Dance/House'',
        keywords = [word ''house'', word ''deep house'', word ''progressive house''],
        priority = 3\<rparr>),
    (''electronic_techno'',
       \<lparr>folder = ''01_Electronic_Dance/Techno'',
        keywords = [word ''techno'', word ''melodic techno''],
        priority = 3\<rparr>),
    (''electronic_psytrance'',
       \<lparr>folder = ''01_Electronic_Dance/Psytrance'',
        keywords = [word ''psytrance'', word ''psychedelic'', word ''psych''],
        priority = 3\<rparr>),
    (''electronic_idm'',
       \<lparr>folder = ''01_Electronic_Dance/IDM'',
        keywords = [word ''idm'', word ''intelligent dance''],
        priority = 3\<rparr>),
    (''electronic_electro'',
       \<lparr>folder = ''01_Electronic_Dance/Electro'',
        keywords = [word ''electro'', word ''electronic'', word ''electronica''],
        priority = 3\<rparr>),
    (''atmospheric_hypnotic'',
       \<lparr>folder = ''02_Atmospheric_Electronic/Hypnotic'',
        keywords = [word ''hypnotic'', word ''trance''],
        priority = 4\<rparr>),
    (''atmospheric_ethereal'',
       \<lparr>folder = ''02_Atmospheric_Electronic/Ethereal'',
        keywords = [word ''ethereal'', word ''dream'', word ''dreamy''],
        priority = 4\<rparr>),
    (''atmospheric_melodic'',
       \<lparr>folder = ''02_Atmospheric_Electronic/Melodic'',
        keywords = [word ''melodic'', word ''euphoric'', word ''mellow'', word ''soothing''],
        priority = 4\<rparr>),
    (''atmospheric_ambient'',
       \<lparr>folder = ''02_Atmospheric_Electronic/Ambient'',
        keywords = [word ''ambient'', word ''atmospheric'', word ''cosmic'', word ''space''],
        priority = 4\<rparr>),
    (''rock'',
       \<lparr>folder = ''03_Rock_Alternative/Rock'',
        keywords = [word ''rock'', word ''alternative'', word ''indie'', word ''punk'',
                    word ''metal''],
        priority = 5\<rparr>),
    (''pop'',
       \<lparr>folder = ''04_Pop_Mainstream/Pop'',
        keywords = [word ''pop'', word ''synthpop''],
        priority = 5\<rparr>),
    (''german'',
       \<lparr>folder = ''07_German_Electronic/Deutsche_Tracks'',
        keywords = [word ''der'', word ''die'', word ''das'', word ''zeit'', word ''tanz'',
                    word ''wald'', word ''schwingung'', word ''kreist'', word ''halsband'',
                    word ''flimmern'', word ''symbole'', word ''inkubation'', word ''nur''],
        priority = 6\<rparr>)]"

definition UNCATEGORIZED_FOLDER :: string where
  "UNCATEGORIZED_FOLDER = ''99_Uncategorized/Other''"

definition FAVORITES_SUBFOLDER :: string where
  "FAVORITES_SUBFOLDER = ''_FAVORITES''"

definition BATCH_SIZE :: nat where
  "BATCH_SIZE = 50"

section \<open>Classification\<close>

text \<open>The inner loop of \<open>classify_file\<close>: some keyword of the rule is found.\<close>

fun any_keyword :: "regex list \<Rightarrow> string \<Rightarrow> bool" where
  "any_keyword [] fn = False"
| "any_keyword (p # ps) fn = (if re_search p fn then True else any_keyword ps fn)"

text \<open>The outer loop: the first rule with a keyword found returns.\<close>

fun first_rule :: "(string \<times> rule) list \<Rightarrow> string \<Rightarrow> string \<times> nat" where
  "first_rule [] fn = (UNCATEGORIZED_FOLDER, 999)"
| "first_rule ((rule_name, rule_data) # rest) fn =
     (if any_keyword (keywords rule_data) fn
      then (folder rule_data, priority rule_data)
      else first_rule rest fn)"

text \<open>
  \<open>sorted(..., key=...)\<close> is a stable sort, and so is \<open>sort_key\<close>; the rule
  table is a parameter here so that the order of evaluation can be stated for any
  table.
\<close>

definition classify_with :: "(string \<times> rule) list \<Rightarrow> string \<Rightarrow> string \<times> nat" where
  "classify_with rules fn = first_rule (sort_key (\<lambda>x. priority (snd x)) rules) fn"

definition classify_file :: "string \<Rightarrow> string \<times> nat" where
  "classify_file filename_lower = classify_with GENRE_RULES filename_lower"

text \<open>\<open>str.startswith\<close>.\<close>

fun startswith :: "string \<Rightarrow> string \<Rightarrow> bool" where
  "startswith s [] = True"
| "startswith [] (p # ps) = False"
| "startswith (c # cs) (p # ps) = (c = p \<and> startswith cs ps)"

definition is_favorite :: "string \<Rightarrow> bool" where
  "is_favorite filename = startswith filename ''+++''"

text \<open>A rule matches a file name when one of its keywords is found in it.\<close>

definition rule_matches :: "rule \<Rightarrow> string \<Rightarrow> bool" where
  "rule_matches r fn = any_keyword (keywords r) fn"

section \<open>Evaluating the matcher\<close>

text \<open>
  The matcher above computes character classes and case folding again at every
  position. For running it on a concrete file name, each character is first
  paired with its lower-case form and its classes, and the matcher below works
  on these; \<open>match_fast_eq\<close> shows that it returns what \<open>match_here\<close>
  returns on patterns without upper-case letters.
\<close>

definition annot :: "char \<Rightarrow> char \<times> bool \<times> bool" where
  "annot c = (lower_char c, is_word c, is_digit c)"

fun lowered :: "regex \<Rightarrow> bool" where
  "lowered [] = True"
| "lowered (Chr c # r) = (if is_upper c then False else lowered r)"
| "lowered (Opt c # r) = (if is_upper c then False else lowered r)"
| "lowered (WordB # r) = lowered r"
| "lowered (Digits # r) = lowered r"

fun match_fast :: "regex \<Rightarrow> bool \<Rightarrow> (char \<times> bool \<times> bool) list \<Rightarrow> bool" where
  "match_fast [] pw s = True"
| "match_fast (Chr c # r) pw [] = False"
| "match_fast (Chr c # r) pw ((d, w, g) # s) = (if c = d then match_fast r w s else False)"
| "match_fast (Opt c # r) pw [] = match_fast r pw []"
| "match_fast (Opt c # r) pw ((d, w, g) # s) =
     (if c = d then (if match_fast r w s then True else match_fast r pw ((d, w, g) # s))
      else match_fast r pw ((d, w, g) # s))"
| "match_fast (WordB # r) pw [] = (if pw then match_fast r pw [] else False)"
| "match_fast (WordB # r) pw ((d, w, g) # s) =
     (if pw = w then False else match_fast r pw ((d, w, g) # s))"
| "match_fast (Digits # r) pw [] = False"
| "match_fast (Digits # r) pw ((d, w, g) # s) =
     (if g then (if match_fast (Digits # r) w s then True else match_fast r w s) else False)"

fun search_fast :: "regex \<Rightarrow> bool \<Rightarrow> (char \<times> bool \<times> bool) list \<Rightarrow> bool" where
  "search_fast p pw [] = match_fast p pw []"
| "search_fast p pw ((d, w, g) # s) =
     (if match_fast p pw ((d, w, g) # s) then True else search_fast p w s)"

fun any_fast :: "regex list \<Rightarrow> (char \<times> bool \<times> bool) list \<Rightarrow> bool" where
  "any_fast [] s = False"
| "any_fast (p # ps) s = (if search_fast p False s then True else any_fast ps s)"

fun first_fast :: "(string \<times> rule) list \<Rightarrow> (char \<times> bool \<times> bool) list \<Rightarrow> string \<times> nat" where
  "first_fast [] s = (UNCATEGORIZED_FOLDER, 999)"
| "first_fast ((n, r) # rest) s =
     (if any_fast (keywords r) s then (folder r, priority r) else first_fast rest s)"

definition prev_word :: "char option \<Rightarrow> bool" where
  "prev_word prev = (case prev of None \<Rightarrow> False | Some c \<Rightarrow> is_word c)"

section \<open>Paths\<close>

text \<open>
  A \<open>pathlib.Path\<close> is modelled as the list of its components below a fixed
  anchor. A component is the name of a directory entry: not empty, without a
  separator, and neither \<open>.\<close> nor \<open>..\<close>. \<open>name\<close>, \<open>parent\<close>, \<open>stem\<close> and
  \<open>suffix\<close> are the properties of \<open>PurePath\<close>.
\<close>

type_synonym path = "string list"

definition name :: "path \<Rightarrow> string" where
  "name p = (if p = [] then [] else last p)"

definition parent :: "path \<Rightarrow> path" where
  "parent p = butlast p"

definition rfind :: "string \<Rightarrow> char \<Rightarrow> int" where
  "rfind s c =
     (if c \<in> set s
      then int (length s) - 1 - int (length (takeWhile (\<lambda>x. x \<noteq> c) (rev s)))
      else - 1)"

definition suffix :: "path \<Rightarrow> string" where
  "suffix p =
     (let nm = name p; i = rfind nm CHR ''.''
      in if 0 < i \<and> i < int (length nm) - 1 then drop (nat i) nm else [])"

definition stem :: "path \<Rightarrow> string" where
  "stem p =
     (let nm = name p; i = rfind nm CHR ''.''
      in if 0 < i \<and> i < int (length nm) - 1 then take (nat i) nm else nm)"

text \<open>
  \<open>p / s\<close> for a relative string \<open>s\<close>, as in every call of the program: the
  string is cut at the separators, and empty components and \<open>.\<close> are dropped.
\<close>

fun split_on :: "char \<Rightarrow> string \<Rightarrow> string list" where
  "split_on c [] = [[]]"
| "split_on c (x # xs) =
     (if x = c then [] # split_on c xs
      else (case split_on c xs of [] \<Rightarrow> [[x]] | w # ws \<Rightarrow> (x # w) # ws))"

definition components :: "string \<Rightarrow> path" where
  "components s = filter (\<lambda>w. w \<noteq> [] \<and> w \<noteq> ''.'') (split_on CHR ''/'' s)"

definition slash :: "path \<Rightarrow> string \<Rightarrow> path" where
  "slash p s = p @ components s"

text \<open>The decimal digits of a number, as an f-string formats an \<open>int\<close>.\<close>

definition digit_char :: "nat \<Rightarrow> char" where
  "digit_char d = char_of (48 + d)"

function str_nat :: "nat \<Rightarrow> string" where
  "str_nat n = (if n < 10 then [digit_char n] else str_nat (n div 10) @ [digit_char (n mod 10)])"
  by pat_completeness auto
termination
  by (relation "measure id") auto

declare str_nat.simps [simp del]

section \<open>The file system\<close>

text \<open>
  The file system is the finite list of its entries, a later entry for a path
  hiding an earlier one; the anchor (the empty path) is a directory. A file is
  its content. What the operating system refuses (permissions, a full disk, a
  path too long) is not a function of these entries, so it is a parameter
  \<open>env\<close>: for a state and an operation it gives the message of the error
  raised, if one is. A refused operation leaves the file system as it was: a
  copy that fails half-way and leaves a truncated file behind is not modelled,
  and the messages are plain texts, not Python's \<open>str(e)\<close> with error number
  and path.
\<close>

datatype node = Dir | File string

type_synonym filesystem = "(path \<times> node) list"

definition lookup :: "filesystem \<Rightarrow> path \<Rightarrow> node option" where
  "lookup fs p = (if p = [] then Some Dir else map_of fs p)"

definition path_exists :: "filesystem \<Rightarrow> path \<Rightarrow> bool" where
  "path_exists fs p = (lookup fs p \<noteq> None)"

datatype fsop = Mkdir path | CopyTo path path

type_synonym env = "filesystem \<Rightarrow> fsop \<Rightarrow> string option"

datatype 'a result = Raise string | Return 'a

text \<open>
  \<open>get_next_version_filename\<close>. The loop ends because the candidates of
  different counters differ and only finitely many paths exist; the lemmas
  before its definition are what its termination proof needs.
\<close>

definition new_name :: "string \<Rightarrow> string \<Rightarrow> nat \<Rightarrow> string" where
  "new_name stm suf counter = stm @ '' v'' @ str_nat counter @ suf"

lemma digit_char_inj: "a < 10 \<Longrightarrow> b < 10 \<Longrightarrow> digit_char a = digit_char b \<Longrightarrow> a = b"
  by (simp add: digit_char_def)

lemma str_nat_length: "0 < length (str_nat n)"
  by (subst str_nat.simps) simp

lemma str_nat_inj: "str_nat m = str_nat n \<Longrightarrow> m = n"
proof (induction m arbitrary: n rule: str_nat.induct)
  case (1 m)
  show ?case
  proof (cases "m < 10")
    case True
    then have m: "str_nat m = [digit_char m]" by (subst str_nat.simps) simp
    show ?thesis
    proof (cases "n < 10")
      case True
      then have "str_nat n = [digit_char n]" by (subst str_nat.simps) simp
      with m "1.prems" \<open>m < 10\<close> True show ?thesis by (auto dest: digit_char_inj)
    next
      case False
      then have "str_nat n = str_nat (n div 10) @ [digit_char (n mod 10)]"
        by (subst str_nat.simps) simp
      with m "1.prems" have "str_nat (n div 10) = []" by simp
      with str_nat_length [of "n div 10"] show ?thesis by simp
    qed
  next
    case False
    then have m: "str_nat m = str_nat (m div 10) @ [digit_char (m mod 10)]"
      by (subst str_nat.simps) simp
    show ?thesis
    proof (cases "n < 10")
      case True
      then have "str_nat n = [digit_char n]" by (subst str_nat.simps) simp
      with m "1.prems" have "str_nat (m div 10) = []" by simp
      with str_nat_length [of "m div 10"] show ?thesis by simp
    next
      case nf: False
      then have "str_nat n = str_nat (n div 10) @ [digit_char (n mod 10)]"
        by (subst str_nat.simps) simp
      with m "1.prems" have e: "str_nat (m div 10) = str_nat (n div 10)"
        and d: "digit_char (m mod 10) = digit_char (n mod 10)" by simp_all
      from "1.IH" [OF False e] have "m div 10 = n div 10" .
      moreover from d have "m mod 10 = n mod 10"
        using digit_char_inj [of "m mod 10" "n mod 10"] by simp
      ultimately show ?thesis by (metis div_mult_mod_eq)
    qed
  qed
qed

lemma new_name_inj: "new_name stm suf m = new_name stm suf n \<Longrightarrow> m = n"
  by (simp add: new_name_def str_nat_inj)

lemma finite_versions: "finite {n. path_exists fs (par @ [new_name stm suf n])}"
proof -
  have "{n. path_exists fs (par @ [new_name stm suf n])}
          \<subseteq> (\<lambda>n. par @ [new_name stm suf n]) -` (fst ` set fs)"
    by (auto simp: path_exists_def lookup_def dest!: map_of_SomeD) force
  moreover have "finite ((\<lambda>n. par @ [new_name stm suf n]) -` (fst ` set fs))"
    by (rule finite_vimageI) (auto intro!: injI dest: new_name_inj)
  ultimately show ?thesis by (rule finite_subset)
qed

function version_loop :: "filesystem \<Rightarrow> path \<Rightarrow> string \<Rightarrow> string \<Rightarrow> nat \<Rightarrow> path" where
  "version_loop fs par stm suf counter =
     (if \<not> path_exists fs (par @ [new_name stm suf counter])
      then par @ [new_name stm suf counter]
      else version_loop fs par stm suf (counter + 1))"
  by pat_completeness auto
termination
proof (relation "measure (\<lambda>(fs, par, stm, suf, counter).
          card {n. counter \<le> n \<and> path_exists fs (par @ [new_name stm suf n])})")
  show "wf (measure (\<lambda>(fs, par, stm, suf, counter).
          card {n. counter \<le> n \<and> path_exists fs (par @ [new_name stm suf n])}))"
    by simp
next
  fix fs :: filesystem and par stm suf counter
  assume "\<not> \<not> path_exists fs (par @ [new_name stm suf counter])"
  then have ex: "path_exists fs (par @ [new_name stm suf counter])" by simp
  let ?A = "{n. counter \<le> n \<and> path_exists fs (par @ [new_name stm suf n])}"
  let ?B = "{n. counter + 1 \<le> n \<and> path_exists fs (par @ [new_name stm suf n])}"
  have "finite ?A" using finite_versions [of fs par stm suf] by (rule rev_finite_subset) auto
  moreover have "?B \<subset> ?A"
  proof
    show "?B \<subseteq> ?A" by auto
    have "counter \<in> ?A" "counter \<notin> ?B" using ex by simp_all
    then show "?B \<noteq> ?A" by blast
  qed
  ultimately have "card ?B < card ?A" by (rule psubset_card_mono)
  then show "((fs, par, stm, suf, counter + 1), (fs, par, stm, suf, counter))
      \<in> measure (\<lambda>(fs, par, stm, suf, counter).
          card {n. counter \<le> n \<and> path_exists fs (par @ [new_name stm suf n])})"
    by simp
qed

declare version_loop.simps [simp del]

definition get_next_version_filename :: "filesystem \<Rightarrow> path \<Rightarrow> path" where
  "get_next_version_filename fs dest_path =
     (if \<not> path_exists fs dest_path then dest_path
      else version_loop fs (parent dest_path) (stem dest_path) (suffix dest_path) 2)"


text \<open>
  \<open>Path.mkdir(parents=True, exist_ok=True)\<close>: an existing directory is left
  alone, an existing file raises, and a missing path is created after its parent.
\<close>

function mkdir :: "env \<Rightarrow> path \<Rightarrow> filesystem \<Rightarrow> unit result \<times> filesystem" where
  "mkdir env p fs =
     (case lookup fs p of
        Some Dir \<Rightarrow> (Return (), fs)
      | Some (File c) \<Rightarrow> (Raise ''File exists'', fs)
      | None \<Rightarrow>
          (case mkdir env (parent p) fs of
             (Raise msg, fs') \<Rightarrow> (Raise msg, fs')
           | (Return u, fs') \<Rightarrow>
               (case env fs' (Mkdir p) of
                  Some msg \<Rightarrow> (Raise msg, fs')
                | None \<Rightarrow> (Return (), (p, Dir) # fs'))))"
  by pat_completeness auto
termination
  by (relation "measure (\<lambda>(env, p, fs). length p)")
     (auto simp: lookup_def parent_def split: if_splits)

declare mkdir.simps [simp del]

text \<open>
  \<open>shutil.copy2(src, dst)\<close>: the source must be a file; a destination that is
  a directory stands for the file of the source's name inside it; an existing
  file at the destination is overwritten.
\<close>

definition copy2 :: "env \<Rightarrow> path \<Rightarrow> path \<Rightarrow> filesystem \<Rightarrow> unit result \<times> filesystem" where
  "copy2 env src dst fs =
     (case lookup fs src of
        None \<Rightarrow> (Raise ''No such file or directory'', fs)
      | Some Dir \<Rightarrow> (Raise ''Is a directory'', fs)
      | Some (File content) \<Rightarrow>
          (let target = (case lookup fs dst of Some Dir \<Rightarrow> dst @ [name src] | _ \<Rightarrow> dst)
           in if target = src then (Raise ''are the same file'', fs)
              else if lookup fs target = Some Dir then (Raise ''Is a directory'', fs)
              else if lookup fs (parent target) \<noteq> Some Dir
                then (Raise ''No such file or directory'', fs)
              else (case env fs (CopyTo src target) of
                      Some msg \<Rightarrow> (Raise msg, fs)
                    | None \<Rightarrow> (Return (), (target, File content) # fs))))"

definition copy_file_with_versioning ::
  "env \<Rightarrow> path \<Rightarrow> string \<Rightarrow> path \<Rightarrow> filesystem \<Rightarrow> path result \<times> filesystem" where
  "copy_file_with_versioning env source_path dest_folder base_path fs =
     (let dest_folder_path = slash base_path dest_folder
      in case mkdir env dest_folder_path fs of
           (Raise msg, fs1) \<Rightarrow> (Raise msg, fs1)
         | (Return u, fs1) \<Rightarrow>
             (let dest_file = slash dest_folder_path (name source_path);
                  final_dest = get_next_version_filename fs1 dest_file
              in case copy2 env source_path final_dest fs1 of
                   (Raise msg, fs2) \<Rightarrow> (Raise msg, fs2)
                 | (Return u, fs2) \<Rightarrow> (Return final_dest, fs2)))"

section \<open>The pipeline\<close>

text \<open>
  The state of the copy phase. \<open>copies\<close> is not a variable of the program: it
  lists, in order, the calls of \<open>copy_file_with_versioning\<close> that returned, as
  the source path and the returned \<open>final_dest\<close>, which the program drops.
  \<open>try_body\<close> is the body of the \<open>try\<close> statement for one file: it gives the
  exception raised, if any, the file system at that moment and the copies made.
  \<open>process_file\<close> adds the \<open>except\<close> clause.
\<close>

record run_state =
  disk :: filesystem
  processed :: nat
  errors :: "(string \<times> string) list"
  copies :: "(path \<times> path) list"

definition try_body ::
  "env \<Rightarrow> (path \<rightharpoonup> string) \<Rightarrow> path \<Rightarrow> path \<Rightarrow> filesystem
     \<Rightarrow> unit result \<times> filesystem \<times> (path \<times> path) list" where
  "try_body env classification_map output_path source_file fs0 =
     (case classification_map source_file of
        None \<Rightarrow> (Raise ''KeyError'', fs0, [])
      | Some dest_folder \<Rightarrow>
          (case copy_file_with_versioning env source_file dest_folder output_path fs0 of
             (Raise msg, fs1) \<Rightarrow> (Raise msg, fs1, [])
           | (Return d1, fs1) \<Rightarrow>
               (if is_favorite (name source_file)
                then (let fav_folder = dest_folder @ ''/'' @ FAVORITES_SUBFOLDER
                      in case copy_file_with_versioning env source_file fav_folder output_path fs1 of
                           (Raise msg, fs2) \<Rightarrow> (Raise msg, fs2, [(source_file, d1)])
                         | (Return d2, fs2) \<Rightarrow>
                             (Return (), fs2, [(source_file, d1), (source_file, d2)]))
                else (Return (), fs1, [(source_file, d1)]))))"

definition process_file ::
  "env \<Rightarrow> (path \<rightharpoonup> string) \<Rightarrow> path \<Rightarrow> path \<Rightarrow> run_state \<Rightarrow> run_state" where
  "process_file env classification_map output_path source_file st =
     (case try_body env classification_map output_path source_file (disk st) of
        (Return u, fs', cs) \<Rightarrow>
          st\<lparr>disk := fs', processed := processed st + 1, copies := copies st @ cs\<rparr>
      | (Raise msg, fs', cs) \<Rightarrow>
          st\<lparr>disk := fs', errors := errors st @ [(name source_file, msg)],
             copies := copies st @ cs\<rparr>)"

fun process_batch ::
  "env \<Rightarrow> (path \<rightharpoonup> string) \<Rightarrow> path \<Rightarrow> path list \<Rightarrow> run_state \<Rightarrow> run_state" where
  "process_batch env cm out [] st = st"
| "process_batch env cm out (source_file # rest) st =
     process_batch env cm out rest (process_file env cm out source_file st)"

text \<open>The slices \<open>all_files[i:i + BATCH_SIZE]\<close> for \<open>i\<close> in steps of \<open>BATCH_SIZE\<close>.\<close>

function batches :: "nat \<Rightarrow> 'a list \<Rightarrow> 'a list list" where
  "batches n xs = (if n = 0 \<or> xs = [] then [] else take n xs # batches n (drop n xs))"
  by pat_completeness auto
termination
  by (relation "measure (\<lambda>(n, xs). length xs)") auto

declare batches.simps [simp del]

fun copy_phase ::
  "env \<Rightarrow> (path \<rightharpoonup> string) \<Rightarrow> path \<Rightarrow> path list list \<Rightarrow> run_state \<Rightarrow> run_state" where
  "copy_phase env cm out [] st = st"
| "copy_phase env cm out (batch # rest) st =
     copy_phase env cm out rest (process_batch env cm out batch st)"

text \<open>
  Step 2 of \<open>sort_music\<close>: the classification of all files, before any copy.
  \<open>stats\<close> is a \<open>defaultdict(int)\<close>, a function that is 0 where nothing was
  counted.
\<close>

record classification =
  classification_map :: "path \<rightharpoonup> string"
  stats :: "string \<Rightarrow> nat"
  favorites_count :: nat

fun classify_all :: "path list \<Rightarrow> classification \<Rightarrow> classification" where
  "classify_all [] c = c"
| "classify_all (file_path # rest) c =
     (let filename_lower = lower (name file_path);
          (folder, priority) = classify_file filename_lower
      in classify_all rest
           \<lparr>classification_map = (classification_map c)(file_path \<mapsto> folder),
            stats = (stats c)(folder := stats c folder + 1),
            favorites_count =
              (if is_favorite (name file_path) then favorites_count c + 1
               else favorites_count c)\<rparr>)"

text \<open>
  \<open>sort_music\<close>, with the list returned by \<open>scan_files\<close> as a parameter. The
  result is what the final report prints, with the final state; it is \<open>None\<close>
  when no file was found and the function returns before classifying.
\<close>

record report =
  report_stats :: "string \<Rightarrow> nat"
  report_processed :: nat
  report_favorites :: nat
  report_errors :: "(string \<times> string) list"

definition sort_music ::
  "env \<Rightarrow> path list \<Rightarrow> path \<Rightarrow> path option \<Rightarrow> filesystem
     \<Rightarrow> (report \<times> run_state) option" where
  "sort_music env all_files source_path output_dir fs0 =
     (let output_path = (case output_dir of None \<Rightarrow> source_path @ [''SORTED_MUSIC'']
                         | Some d \<Rightarrow> d)
      in if length all_files = 0 then None
         else (let c = classify_all all_files
                         \<lparr>classification_map = Map.empty, stats = (\<lambda>x. 0),
                          favorites_count = 0\<rparr>;
                   st = copy_phase env (classification_map c) output_path
                          (batches BATCH_SIZE all_files)
                          \<lparr>disk = fs0, processed = 0, errors = [], copies = []\<rparr>
               in Some (\<lparr>report_stats = stats c, report_processed = processed st,
                         report_favorites = favorites_count c,
                         report_errors = errors st\<rparr>, st)))"

definition sanitize_filename :: "string \<Rightarrow> string" where
  "sanitize_filename filename =
     map (\<lambda>c. if c \<in> set (''<>:'' @ [CHR 0x22] @ ''/'' @ [CHR 0x5C] @ ''|?*'')
               then CHR ''_'' else c) filename"


section \<open>Properties of the matcher and of classification\<close>

lemma lower_char_fix: "\<not> is_upper c \<Longrightarrow> lower_char c = c"
  by (simp add: lower_char_def)

lemma same_ci_lowered: "\<not> is_upper c \<Longrightarrow> same_ci c d = (c = lower_char d)"
  by (simp add: same_ci_def lower_char_fix)

lemma match_fast_eq:
  "lowered p \<Longrightarrow> match_here p prev s = match_fast p (prev_word prev) (map annot s)"
proof (induction p prev s rule: match_here.induct)
  case (6 r prev s)
  then show ?case
    by (cases s) (auto simp: at_boundary_def prev_word_def annot_def split: option.splits)
qed (auto simp: same_ci_lowered annot_def prev_word_def split: if_splits)

lemma search_fast_eq:
  "lowered p \<Longrightarrow> search_from p prev s = search_fast p (prev_word prev) (map annot s)"
  by (induction s arbitrary: prev) (auto simp: match_fast_eq annot_def prev_word_def)

lemma any_fast_eq:
  "list_all lowered ps \<Longrightarrow> any_keyword ps fn = any_fast ps (map annot fn)"
  by (induction ps) (auto simp: re_search_def search_fast_eq prev_word_def)

lemma first_fast_eq:
  "list_all (\<lambda>x. list_all lowered (keywords (snd x))) rs \<Longrightarrow>
     first_rule rs fn = first_fast rs (map annot fn)"
  by (induction rs) (auto simp: any_fast_eq)

lemma GENRE_RULES_sorted: "sort_key (\<lambda>x. priority (snd x)) GENRE_RULES = GENRE_RULES"
  by (simp add: GENRE_RULES_def)

lemma GENRE_RULES_lowered: "list_all (\<lambda>x. list_all lowered (keywords (snd x))) GENRE_RULES"
  by (simp add: GENRE_RULES_def word_def lit_def is_upper_def)

lemma classify_file_fast: "classify_file fn = first_fast GENRE_RULES (map annot fn)"
  by (simp add: classify_file_def classify_with_def GENRE_RULES_sorted first_fast_eq GENRE_RULES_lowered)

lemmas char_eval = annot_def lower_def lower_char_def is_word_def is_upper_def is_lower_def
  is_digit_def char_of_def bit_iff_odd

lemmas classify_eval = classify_file_fast GENRE_RULES_def word_def lit_def UNCATEGORIZED_FOLDER_def



lemma any_keyword_iff: "any_keyword ps fn = (\<exists>p\<in>set ps. re_search p fn)"
  by (induction ps) auto

lemma first_rule_find:
  "first_rule rs fn =
     (case List.find (\<lambda>x. any_keyword (keywords (snd x)) fn) rs of
        None \<Rightarrow> (UNCATEGORIZED_FOLDER, 999)
      | Some x \<Rightarrow> (folder (snd x), priority (snd x)))"
  by (induction rs) auto

lemma find_filter: "List.find P (filter Q xs) = List.find (\<lambda>x. Q x \<and> P x) xs"
  by (induction xs) auto

lemma find_sorted_least:
  assumes "sorted (map f ys)"
    and "\<forall>x\<in>set ys. P x \<longrightarrow> k \<le> f x"
    and "\<exists>x\<in>set ys. P x \<and> f x = k"
  shows "List.find P ys = List.find (\<lambda>x. f x = k \<and> P x) ys"
  using assms
proof (induction ys)
  case Nil
  then show ?case by simp
next
  case (Cons y ys)
  show ?case
  proof (cases "P y")
    case True
    from Cons.prems obtain x where x: "x \<in> set (y # ys)" "P x" "f x = k" by blast
    have "k \<le> f y" using Cons.prems(2) True by simp
    moreover have "f y \<le> f x" using Cons.prems(1) x(1) by auto
    ultimately have "f y = k" using x(3) by simp
    with True show ?thesis by simp
  next
    case False
    then have "\<exists>x\<in>set ys. P x \<and> f x = k" using Cons.prems(3) by auto
    moreover have "sorted (map f ys)" using Cons.prems(1) by simp
    moreover have "\<forall>x\<in>set ys. P x \<longrightarrow> k \<le> f x" using Cons.prems(2) by simp
    ultimately have "List.find P ys = List.find (\<lambda>x. f x = k \<and> P x) ys"
      by (rule Cons.IH[rotated 2])
    with False show ?thesis by simp
  qed
qed

lemma find_split:
  assumes "P x" and "\<forall>y\<in>set before. \<not> P y"
  shows "List.find P (before @ x # after) = Some x"
  using assms by (induction before) auto

lemma find_sort_key:
  assumes "P x"
    and "\<forall>y\<in>set before. P y \<longrightarrow> f x < f y"
    and "\<forall>y\<in>set after. P y \<longrightarrow> f x \<le> f y"
  shows "List.find P (sort_key f (before @ x # after)) = Some x"
proof -
  let ?xs = "before @ x # after" and ?k = "f x"
  have "List.find P (sort_key f ?xs) = List.find (\<lambda>y. f y = ?k \<and> P y) (sort_key f ?xs)"
  proof (rule find_sorted_least)
    show "sorted (map f (sort_key f ?xs))" by simp
    show "\<forall>y\<in>set (sort_key f ?xs). P y \<longrightarrow> ?k \<le> f y"
      using assms by (auto simp: less_imp_le)
    show "\<exists>y\<in>set (sort_key f ?xs). P y \<and> f y = ?k"
      using assms(1) by auto
  qed
  also have "\<dots> = List.find P (filter (\<lambda>y. f y = ?k) (sort_key f ?xs))"
    by (rule find_filter [symmetric])
  also have "\<dots> = List.find P (filter (\<lambda>y. f y = ?k) ?xs)"
    by (simp only: sort_key_stable)
  also have "\<dots> = List.find (\<lambda>y. f y = ?k \<and> P y) ?xs"
    by (rule find_filter)
  also have "\<dots> = Some x"
    by (rule find_split) (use assms in auto)
  finally show ?thesis .
qed

lemma classify_with_first_match:
  assumes "rules = before @ (rule_name, r) # after"
    and "rule_matches r fn"
    and "\<forall>x\<in>set before. rule_matches (snd x) fn \<longrightarrow> priority r < priority (snd x)"
    and "\<forall>x\<in>set after. rule_matches (snd x) fn \<longrightarrow> priority r \<le> priority (snd x)"
  shows "classify_with rules fn = (folder r, priority r)"
proof -
  have "List.find (\<lambda>x. rule_matches (snd x) fn)
          (sort_key (\<lambda>x. priority (snd x)) (before @ (rule_name, r) # after))
        = Some (rule_name, r)"
    by (rule find_sort_key) (use assms in auto)
  then show ?thesis
    by (simp add: classify_with_def first_rule_find assms(1) rule_matches_def)
qed

text \<open>
  C1. When a file name matches several rules, \<open>classify_file\<close> returns the
  folder of the matching rule with the smallest priority number, and among the
  matching rules of that priority the one declared first: if rule \<open>r\<close> matches,
  every matching rule declared before it has a strictly larger priority number and
  every matching rule declared after it has a priority number at least as large,
  then the result is the folder and priority of \<open>r\<close>. How many keywords match and
  how long they are plays no part.
\<close>

theorem classify_first_match_wins:
  assumes "GENRE_RULES = before @ (rule_name, r) # after"
    and "rule_matches r fn"
    and "\<forall>x\<in>set before. rule_matches (snd x) fn \<longrightarrow> priority r < priority (snd x)"
    and "\<forall>x\<in>set after. rule_matches (snd x) fn \<longrightarrow> priority r \<le> priority (snd x)"
  shows "classify_file fn = (folder r, priority r)"
  unfolding classify_file_def using assms by (rule classify_with_first_match)

lemma re_search_fast:
  "lowered p \<Longrightarrow> re_search p fn = search_fast p False (map annot fn)"
  by (simp add: re_search_def search_fast_eq prev_word_def)

lemma rule_matches_fast:
  "list_all lowered (keywords r) \<Longrightarrow> rule_matches r fn = any_fast (keywords r) (map annot fn)"
  by (simp add: rule_matches_def any_fast_eq)


theorem classify_first_match_wins_witness:
  "rule_matches (snd (GENRE_RULES ! 4)) ''deep house remix.wav''
   \<and> rule_matches (snd (GENRE_RULES ! 5)) ''deep house remix.wav''
   \<and> priority (snd (GENRE_RULES ! 4)) < priority (snd (GENRE_RULES ! 5))
   \<and> classify_file ''deep house remix.wav'' = (''05_Remixes_Edits/Extended_Versions'', 2)"
proof -
  let ?fn = "''deep house remix.wav''"
  let ?r = "snd (GENRE_RULES ! 4)"
  have h1: "GENRE_RULES = take 4 GENRE_RULES @ (fst (GENRE_RULES ! 4), ?r) # drop 5 GENRE_RULES"
    by (simp add: GENRE_RULES_def)
  have h2: "rule_matches ?r ?fn"
    by (simp add: GENRE_RULES_def rule_matches_fast word_def lit_def char_eval)
  have h3: "\<forall>x\<in>set (take 4 GENRE_RULES). rule_matches (snd x) ?fn \<longrightarrow> priority ?r < priority (snd x)"
    by (simp add: GENRE_RULES_def rule_matches_fast word_def lit_def char_eval)
  have h4: "\<forall>x\<in>set (drop 5 GENRE_RULES). rule_matches (snd x) ?fn \<longrightarrow> priority ?r \<le> priority (snd x)"
    by (simp add: GENRE_RULES_def)
  have h5: "rule_matches (snd (GENRE_RULES ! 5)) ?fn"
    by (simp add: GENRE_RULES_def rule_matches_fast word_def lit_def char_eval)
  have "classify_file ?fn = (folder ?r, priority ?r)"
    using classify_first_match_wins [OF h1 h2 h3 h4] .
  moreover have "folder ?r = ''05_Remixes_Edits/Extended_Versions''" "priority ?r = 2"
    by (simp_all add: GENRE_RULES_def)
  moreover have "priority ?r < priority (snd (GENRE_RULES ! 5))"
    by (simp add: GENRE_RULES_def)
  ultimately show ?thesis using h2 h5 by simp
qed

lemma startswith_iff: "startswith s p = (\<exists>rest. s = p @ rest)"
  by (induction s p rule: startswith.induct) auto

text \<open>
  C8. \<open>is_favorite\<close> holds exactly for the file names that begin with the three
  characters \<open>+++\<close>: the marker counts only at the start of the name, so
  \<open>+++Track.wav\<close> is a favorite while \<open>Track+++.wav\<close> and \<open>++Track.wav\<close>
  are not.
\<close>

theorem is_favorite_prefix:
  "(is_favorite fn = (\<exists>rest. fn = ''+++'' @ rest))
   \<and> is_favorite ''+++Track.wav''
   \<and> \<not> is_favorite ''Track+++.wav''
   \<and> \<not> is_favorite ''++Track.wav''"
  by (simp add: is_favorite_def startswith_iff)

lemma GENRE_RULES_folders:
  "\<forall>x\<in>set GENRE_RULES. folder (snd x) \<noteq> UNCATEGORIZED_FOLDER"
  by (simp add: GENRE_RULES_def UNCATEGORIZED_FOLDER_def)

lemma first_rule_fallback_iff:
  assumes "\<forall>x\<in>set rs. folder (snd x) \<noteq> UNCATEGORIZED_FOLDER"
  shows "(fst (first_rule rs fn) = UNCATEGORIZED_FOLDER)
         = (\<forall>x\<in>set rs. \<not> any_keyword (keywords (snd x)) fn)"
  using assms
proof (induction rs)
  case Nil
  then show ?case by simp
next
  case (Cons x rs)
  obtain n r where x: "x = (n, r)" by (cases x)
  show ?case
  proof (cases "any_keyword (keywords r) fn")
    case True
    then show ?thesis using Cons.prems x by auto
  next
    case False
    then show ?thesis using Cons x by simp
  qed
qed

lemma first_rule_range:
  "fst (first_rule rs fn) \<in> insert UNCATEGORIZED_FOLDER (set (map (\<lambda>x. folder (snd x)) rs))"
proof (induction rs)
  case Nil
  then show ?case by simp
next
  case (Cons x rs)
  obtain n r where x: "x = (n, r)" by (cases x)
  show ?case
  proof (cases "any_keyword (keywords r) fn")
    case True
    then show ?thesis using x by simp
  next
    case False
    then have "fst (first_rule (x # rs) fn) = fst (first_rule rs fn)" using x by simp
    then show ?thesis using Cons.IH by auto
  qed
qed

lemma first_rule_no_match:
  "\<forall>x\<in>set rs. \<not> any_keyword (keywords (snd x)) fn \<Longrightarrow> first_rule rs fn = (UNCATEGORIZED_FOLDER, 999)"
  by (induction rs) auto

text \<open>
  C4. \<open>classify_file\<close> is a total function of the file name: it returns one
  folder, which is the fallback folder or the folder of a rule of the table, and it
  returns the fallback folder \<open>99_Uncategorized/Other\<close> (with priority 999) exactly
  when no keyword of any rule is found in the name. The empty name gets the
  fallback folder.
\<close>

theorem classify_total_fallback:
  "((fst (classify_file fn) = UNCATEGORIZED_FOLDER)
      = (\<forall>x\<in>set GENRE_RULES. \<forall>p\<in>set (keywords (snd x)). \<not> re_search p fn))
   \<and> ((classify_file fn = (UNCATEGORIZED_FOLDER, 999))
      = (\<forall>x\<in>set GENRE_RULES. \<forall>p\<in>set (keywords (snd x)). \<not> re_search p fn))
   \<and> fst (classify_file fn)
        \<in> insert UNCATEGORIZED_FOLDER (set (map (\<lambda>x. folder (snd x)) GENRE_RULES))
   \<and> classify_file [] = (UNCATEGORIZED_FOLDER, 999)"
proof -
  let ?rs = "sort_key (\<lambda>x. priority (snd x)) GENRE_RULES"
  let ?none = "\<forall>x\<in>set GENRE_RULES. \<forall>p\<in>set (keywords (snd x)). \<not> re_search p fn"
  have folders: "\<forall>x\<in>set ?rs. folder (snd x) \<noteq> UNCATEGORIZED_FOLDER"
    using GENRE_RULES_folders by simp
  have a: "(fst (classify_file fn) = UNCATEGORIZED_FOLDER) = ?none"
    unfolding classify_file_def classify_with_def first_rule_fallback_iff [OF folders]
    by (simp add: any_keyword_iff)
  have "?none \<Longrightarrow> classify_file fn = (UNCATEGORIZED_FOLDER, 999)"
    unfolding classify_file_def classify_with_def
    by (rule first_rule_no_match) (simp add: any_keyword_iff)
  with a have b: "(classify_file fn = (UNCATEGORIZED_FOLDER, 999)) = ?none"
    by auto
  have c: "fst (classify_file fn)
        \<in> insert UNCATEGORIZED_FOLDER (set (map (\<lambda>x. folder (snd x)) GENRE_RULES))"
    using first_rule_range [of ?rs fn] by (simp add: classify_file_def classify_with_def)
  have d: "classify_file [] = (UNCATEGORIZED_FOLDER, 999)"
    by (simp add: classify_eval)
  from a b c d show ?thesis by blast
qed

theorem classify_total_fallback_witness:
  "classify_file ''intro 01.wav'' = (''99_Uncategorized/Other'', 999)"
proof -
  have "\<forall>x\<in>set GENRE_RULES. \<forall>p\<in>set (keywords (snd x)). \<not> re_search p ''intro 01.wav''"
    by (simp add: GENRE_RULES_def re_search_fast word_def lit_def char_eval)
  with classify_total_fallback [of "''intro 01.wav''"] show ?thesis
    unfolding UNCATEGORIZED_FOLDER_def by blast
qed

section \<open>The versioning resolver\<close>

lemma version_loop_spec:
  "\<exists>n\<ge>counter. version_loop fs par stm suf counter = par @ [new_name stm suf n]
      \<and> \<not> path_exists fs (par @ [new_name stm suf n])
      \<and> (\<forall>m. counter \<le> m \<and> m < n \<longrightarrow> path_exists fs (par @ [new_name stm suf m]))"
proof (induction fs par stm suf counter rule: version_loop.induct)
  case (1 fs par stm suf counter)
  show ?case
  proof (cases "path_exists fs (par @ [new_name stm suf counter])")
    case False
    then have "version_loop fs par stm suf counter = par @ [new_name stm suf counter]"
      by (subst version_loop.simps) simp
    with False show ?thesis by (intro exI [of _ counter]) auto
  next
    case True
    then have eq: "version_loop fs par stm suf counter = version_loop fs par stm suf (counter + 1)"
      by (subst version_loop.simps) simp
    from "1.IH" True obtain n where n: "counter + 1 \<le> n"
      "version_loop fs par stm suf (counter + 1) = par @ [new_name stm suf n]"
      "\<not> path_exists fs (par @ [new_name stm suf n])"
      "\<forall>m. counter + 1 \<le> m \<and> m < n \<longrightarrow> path_exists fs (par @ [new_name stm suf m])"
      by auto
    have "\<forall>m. counter \<le> m \<and> m < n \<longrightarrow> path_exists fs (par @ [new_name stm suf m])"
    proof (intro allI impI)
      fix m assume m: "counter \<le> m \<and> m < n"
      show "path_exists fs (par @ [new_name stm suf m])"
      proof (cases "m = counter")
        case True
        with \<open>path_exists fs (par @ [new_name stm suf counter])\<close> show ?thesis by simp
      next
        case False
        with m n(4) show ?thesis by simp
      qed
    qed
    with n eq show ?thesis by (intro exI [of _ n]) auto
  qed
qed

text \<open>
  C2. \<open>get_next_version_filename\<close> returns the desired path unchanged when
  nothing exists there. When a file or a directory exists there, it returns the
  candidate \<open>{stem} v{n}{suffix}\<close> in the same folder for the first counter
  \<open>n = 2, 3, 4, \<dots>\<close> whose candidate does not exist: all candidates of smaller
  counters exist. In both cases the loop ends and the returned path does not exist.
\<close>

theorem get_next_version_filename_spec:
  "(\<not> path_exists fs dest_path \<longrightarrow> get_next_version_filename fs dest_path = dest_path)
   \<and> (path_exists fs dest_path \<longrightarrow>
        (\<exists>n\<ge>2. get_next_version_filename fs dest_path
                  = parent dest_path @ [stem dest_path @ '' v'' @ str_nat n @ suffix dest_path]
             \<and> (\<forall>m. 2 \<le> m \<and> m < n \<longrightarrow>
                   path_exists fs
                     (parent dest_path @ [stem dest_path @ '' v'' @ str_nat m @ suffix dest_path]))))
   \<and> \<not> path_exists fs (get_next_version_filename fs dest_path)"
proof (cases "path_exists fs dest_path")
  case False
  then show ?thesis by (simp add: get_next_version_filename_def)
next
  case True
  from version_loop_spec [of 2 fs "parent dest_path" "stem dest_path" "suffix dest_path"]
  obtain n where n: "2 \<le> n"
    "version_loop fs (parent dest_path) (stem dest_path) (suffix dest_path) 2
       = parent dest_path @ [new_name (stem dest_path) (suffix dest_path) n]"
    "\<not> path_exists fs (parent dest_path @ [new_name (stem dest_path) (suffix dest_path) n])"
    "\<forall>m. 2 \<le> m \<and> m < n \<longrightarrow>
       path_exists fs (parent dest_path @ [new_name (stem dest_path) (suffix dest_path) m])"
    by blast
  have r: "get_next_version_filename fs dest_path
             = parent dest_path @ [new_name (stem dest_path) (suffix dest_path) n]"
    using True n(2) by (simp add: get_next_version_filename_def)
  have "\<exists>n\<ge>2. get_next_version_filename fs dest_path
                  = parent dest_path @ [stem dest_path @ '' v'' @ str_nat n @ suffix dest_path]
             \<and> (\<forall>m. 2 \<le> m \<and> m < n \<longrightarrow>
                   path_exists fs
                     (parent dest_path @ [stem dest_path @ '' v'' @ str_nat m @ suffix dest_path]))"
    using n(1) n(4) r unfolding new_name_def by (intro exI [of _ n]) simp
  moreover have "\<not> path_exists fs (get_next_version_filename fs dest_path)"
    using n(3) r by simp
  ultimately show ?thesis using True by blast
qed

lemma str_nat_digit: "n < 10 \<Longrightarrow> str_nat n = [digit_char n]"
  by (subst str_nat.simps) simp

lemmas path_eval = name_def parent_def stem_def suffix_def rfind_def Let_def
  path_exists_def lookup_def

theorem get_next_version_filename_spec_witness:
  "path_exists [([''out'', ''Track.wav''], File ''a''), ([''out'', ''Track v2.wav''], Dir),
                ([''out''], Dir)] [''out'', ''Track.wav'']
   \<and> get_next_version_filename
        [([''out'', ''Track.wav''], File ''a''), ([''out'', ''Track v2.wav''], Dir),
         ([''out''], Dir)] [''out'', ''Track.wav'']
       = [''out'', ''Track v3.wav'']"
proof -
  let ?fs = "[([''out'', ''Track.wav''], File ''a''), ([''out'', ''Track v2.wav''], Dir),
              ([''out''], Dir)]"
  let ?p = "[''out'', ''Track.wav'']"
  let ?cand = "\<lambda>n. parent ?p @ [stem ?p @ '' v'' @ str_nat n @ suffix ?p]"
  have ex: "path_exists ?fs ?p" by (simp add: path_eval)
  have c2: "?cand 2 = [''out'', ''Track v2.wav'']"
    by (simp add: path_eval str_nat_digit digit_char_def char_of_def bit_iff_odd)
  have c3: "?cand 3 = [''out'', ''Track v3.wav'']"
    by (simp add: path_eval str_nat_digit digit_char_def char_of_def bit_iff_odd)
  have e2: "path_exists ?fs [''out'', ''Track v2.wav'']" by (simp add: path_eval)
  have e3: "\<not> path_exists ?fs [''out'', ''Track v3.wav'']" by (simp add: path_eval)
  from get_next_version_filename_spec [of ?fs ?p] ex
  obtain n where n: "2 \<le> n" "get_next_version_filename ?fs ?p = ?cand n"
    "\<forall>m. 2 \<le> m \<and> m < n \<longrightarrow> path_exists ?fs (?cand m)"
    and nex: "\<not> path_exists ?fs (get_next_version_filename ?fs ?p)"
    by blast
  have "n \<noteq> 2" using nex n(2) c2 e2 by auto
  moreover have "\<not> 3 < n"
  proof
    assume "3 < n"
    with n(3) have "path_exists ?fs (?cand 3)" by simp
    with c3 e3 show False by simp
  qed
  ultimately have "n = 3" using n(1) by simp
  with n(2) c3 ex show ?thesis by simp
qed


section \<open>Effects of the file operations\<close>

text \<open>
  \<open>preserves fs fs'\<close>: every path that exists in \<open>fs\<close> exists in \<open>fs'\<close> as
  the same directory or the same file content.
\<close>

definition preserves :: "filesystem \<Rightarrow> filesystem \<Rightarrow> bool" where
  "preserves fs fs' = (\<forall>q n. lookup fs q = Some n \<longrightarrow> lookup fs' q = Some n)"

lemma preserves_refl: "preserves fs fs"
  by (simp add: preserves_def)

lemma preserves_trans: "preserves a b \<Longrightarrow> preserves b c \<Longrightarrow> preserves a c"
  by (simp add: preserves_def)

lemma preserves_new: "lookup fs p = None \<Longrightarrow> preserves fs ((p, x) # fs)"
  by (auto simp: preserves_def lookup_def split: if_splits)

lemma preserves_exists: "preserves fs fs' \<Longrightarrow> path_exists fs q \<Longrightarrow> path_exists fs' q"
  by (auto simp: preserves_def path_exists_def)

lemma lookup_new: "p \<noteq> [] \<Longrightarrow> lookup ((p, x) # fs) p = Some x"
  by (simp add: lookup_def)

lemma lookup_None_nonempty: "lookup fs p = None \<Longrightarrow> p \<noteq> []"
  by (auto simp: lookup_def)

lemma mkdir_Dir: "lookup fs p = Some Dir \<Longrightarrow> mkdir env p fs = (Return (), fs)"
  by (subst mkdir.simps) simp

lemma mkdir_File: "lookup fs p = Some (File c) \<Longrightarrow> mkdir env p fs = (Raise ''File exists'', fs)"
  by (subst mkdir.simps) simp

lemma mkdir_None:
  "lookup fs p = None \<Longrightarrow>
     mkdir env p fs =
       (case mkdir env (parent p) fs of
          (Raise msg, fs') \<Rightarrow> (Raise msg, fs')
        | (Return u, fs') \<Rightarrow>
            (case env fs' (Mkdir p) of
               Some msg \<Rightarrow> (Raise msg, fs')
             | None \<Rightarrow> (Return (), (p, Dir) # fs')))"
  by (subst mkdir.simps) simp

lemma mkdir_props:
  "mkdir env p fs = (r, fs') \<Longrightarrow>
     preserves fs fs' \<and> (r = Return () \<longrightarrow> lookup fs' p = Some Dir)"
proof (induction env p fs arbitrary: r fs' rule: mkdir.induct)
  case (1 env p fs)
  show ?case
  proof (cases "lookup fs p")
    case (Some n)
    then show ?thesis using "1.prems"
      by (cases n) (auto simp: mkdir_Dir mkdir_File preserves_refl)
  next
    case None
    obtain r0 fs0 where m0: "mkdir env (parent p) fs = (r0, fs0)" by (cases "mkdir env (parent p) fs")
    from "1.IH" [OF None m0] have p0: "preserves fs fs0"
      and d0: "r0 = Return () \<longrightarrow> lookup fs0 (parent p) = Some Dir" by simp_all
    show ?thesis
    proof (cases r0)
      case (Raise msg)
      with "1.prems" None m0 p0 show ?thesis by (auto simp: mkdir_None)
    next
      case (Return u)
      show ?thesis
      proof (cases "env fs0 (Mkdir p)")
        case (Some msg)
        with "1.prems" None m0 p0 Return show ?thesis by (auto simp: mkdir_None)
      next
        case nf: None
        with "1.prems" None m0 Return have r: "r = Return ()" and f: "fs' = (p, Dir) # fs0"
          by (simp_all add: mkdir_None)
        have "p \<noteq> []" using None by (rule lookup_None_nonempty)
        moreover have "preserves fs ((p, Dir) # fs0)"
          using p0 None \<open>p \<noteq> []\<close> by (auto simp: preserves_def lookup_def split: if_splits)
        ultimately show ?thesis using r f by (simp add: lookup_new)
      qed
    qed
  qed
qed

lemma copy2_props:
  assumes "\<not> path_exists fs dst" and "copy2 env src dst fs = (r, fs')"
  shows "preserves fs fs'"
    and "r = Return () \<Longrightarrow> \<exists>c. lookup fs src = Some (File c) \<and> fs' = (dst, File c) # fs"
    and "r \<noteq> Return () \<Longrightarrow> fs' = fs"
proof -
  have dn: "lookup fs dst = None" using assms(1) by (simp add: path_exists_def)
  then have ne: "dst \<noteq> []" by (rule lookup_None_nonempty)
  show "preserves fs fs'"
    using assms(2) dn preserves_new [OF dn]
    by (auto simp: copy2_def Let_def preserves_refl split: option.splits node.splits if_splits)
  show "r = Return () \<Longrightarrow> \<exists>c. lookup fs src = Some (File c) \<and> fs' = (dst, File c) # fs"
    using assms(2) dn
    by (auto simp: copy2_def Let_def split: option.splits node.splits if_splits)
  show "r \<noteq> Return () \<Longrightarrow> fs' = fs"
    using assms(2) dn
    by (auto simp: copy2_def Let_def split: option.splits node.splits if_splits)
qed

lemma get_next_version_free: "\<not> path_exists fs (get_next_version_filename fs p)"
proof (cases "path_exists fs p")
  case False
  then show ?thesis by (simp add: get_next_version_filename_def)
next
  case True
  with version_loop_spec [of 2 fs "parent p" "stem p" "suffix p"] show ?thesis
    by (auto simp: get_next_version_filename_def)
qed


lemma mkdir_files:
  "mkdir env p fs = (r, fs') \<Longrightarrow> lookup fs' q = Some (File c) \<Longrightarrow> lookup fs q = Some (File c)"
proof (induction env p fs arbitrary: r fs' rule: mkdir.induct)
  case (1 env p fs)
  show ?case
  proof (cases "lookup fs p")
    case (Some n)
    then show ?thesis using "1.prems" by (cases n) (auto simp: mkdir_Dir mkdir_File)
  next
    case None
    obtain r0 fs0 where m0: "mkdir env (parent p) fs = (r0, fs0)" by (cases "mkdir env (parent p) fs")
    have ih: "lookup fs0 q = Some (File c) \<Longrightarrow> lookup fs q = Some (File c)"
      using "1.IH" [OF None m0] by simp
    from "1.prems"(1) None m0 have "fs' = fs0 \<or> fs' = (p, Dir) # fs0"
      by (auto simp: mkdir_None split: result.splits option.splits)
    then show ?thesis
    proof
      assume "fs' = fs0" with ih "1.prems"(2) show ?thesis by simp
    next
      assume "fs' = (p, Dir) # fs0"
      with "1.prems"(2) have "lookup fs0 q = Some (File c)"
        by (auto simp: lookup_def split: if_splits)
      with ih show ?thesis .
    qed
  qed
qed

lemma cfv_props:
  assumes "copy_file_with_versioning env src dest_folder base fs = (r, fs')"
  shows "preserves fs fs'"
    and "r = Return d \<Longrightarrow>
           \<exists>fs1 c. mkdir env (slash base dest_folder) fs = (Return (), fs1)
             \<and> d = get_next_version_filename fs1 (slash (slash base dest_folder) (name src))
             \<and> lookup fs src = Some (File c) \<and> fs' = (d, File c) # fs1"
proof -
  obtain r1 fs1 where m: "mkdir env (slash base dest_folder) fs = (r1, fs1)"
    by (cases "mkdir env (slash base dest_folder) fs")
  from mkdir_props [OF m] have p1: "preserves fs fs1" by simp
  let ?d = "get_next_version_filename fs1 (slash (slash base dest_folder) (name src))"
  obtain r2 fs2 where c: "copy2 env src ?d fs1 = (r2, fs2)" by (cases "copy2 env src ?d fs1")
  have free: "\<not> path_exists fs1 ?d" by (rule get_next_version_free)
  note cp = copy2_props [OF free c]
  show "preserves fs fs'"
  proof (cases r1)
    case (Raise msg)
    with assms m p1 show ?thesis by (simp add: copy_file_with_versioning_def)
  next
    case (Return u)
    with assms m c have "fs' = fs2"
      by (auto simp: copy_file_with_versioning_def Let_def split: result.splits)
    with cp(1) p1 show ?thesis by (auto intro: preserves_trans)
  qed
  show "\<exists>fs1 c. mkdir env (slash base dest_folder) fs = (Return (), fs1)
             \<and> d = get_next_version_filename fs1 (slash (slash base dest_folder) (name src))
             \<and> lookup fs src = Some (File c) \<and> fs' = (d, File c) # fs1" if "r = Return d"
  proof -
    from that assms m c have r1: "r1 = Return ()" and r2: "r2 = Return ()" and d: "d = ?d"
      and f: "fs' = fs2"
      by (auto simp: copy_file_with_versioning_def Let_def split: result.splits)
    from cp(2) [OF r2] obtain c where c1: "lookup fs1 src = Some (File c)"
      and f2: "fs2 = (?d, File c) # fs1" by blast
    from mkdir_files [OF m c1] have "lookup fs src = Some (File c)" .
    with m r1 d f f2 show ?thesis by auto
  qed
qed

lemma cfv_return:
  assumes "copy_file_with_versioning env src dest_folder base fs = (Return d, fs')"
  shows "\<not> path_exists fs d" and "path_exists fs' d" and "preserves fs fs'"
    and "\<exists>c. lookup fs src = Some (File c) \<and> lookup fs' d = Some (File c)"
proof -
  from cfv_props(2) [OF assms refl] obtain fs1 c where
    m: "mkdir env (slash base dest_folder) fs = (Return (), fs1)"
    and d: "d = get_next_version_filename fs1 (slash (slash base dest_folder) (name src))"
    and c: "lookup fs src = Some (File c)" and f: "fs' = (d, File c) # fs1" by blast
  have free: "\<not> path_exists fs1 d" unfolding d by (rule get_next_version_free)
  then have ne: "d \<noteq> []" by (auto simp: path_exists_def lookup_def)
  from mkdir_props [OF m] have "preserves fs fs1" by simp
  with free show "\<not> path_exists fs d" by (auto dest: preserves_exists)
  show "path_exists fs' d" using f ne by (simp add: path_exists_def lookup_new)
  show "preserves fs fs'" using assms by (rule cfv_props(1))
  show "\<exists>c. lookup fs src = Some (File c) \<and> lookup fs' d = Some (File c)"
    using c f ne by (simp add: lookup_new)
qed

text \<open>
  \<open>segment st st'\<close>: from \<open>st\<close> to \<open>st'\<close> every entry of the file system was
  kept as it was, and the copies made went to different paths, none of which
  existed in \<open>st\<close> and all of which exist in \<open>st'\<close>.
\<close>

definition segment :: "run_state \<Rightarrow> run_state \<Rightarrow> bool" where
  "segment st st' =
     (preserves (disk st) (disk st')
      \<and> (\<exists>cs. copies st' = copies st @ cs \<and> distinct (map snd cs)
            \<and> (\<forall>x\<in>set cs. \<not> path_exists (disk st) (snd x) \<and> path_exists (disk st') (snd x))))"

lemma segment_refl: "segment st st"
  by (simp add: segment_def preserves_refl)

lemma segment_trans:
  assumes "segment a b" and "segment b c"
  shows "segment a c"
proof -
  from assms(1) obtain cs1 where 1: "preserves (disk a) (disk b)" "copies b = copies a @ cs1"
    "distinct (map snd cs1)"
    "\<forall>x\<in>set cs1. \<not> path_exists (disk a) (snd x) \<and> path_exists (disk b) (snd x)"
    by (auto simp: segment_def)
  from assms(2) obtain cs2 where 2: "preserves (disk b) (disk c)" "copies c = copies b @ cs2"
    "distinct (map snd cs2)"
    "\<forall>x\<in>set cs2. \<not> path_exists (disk b) (snd x) \<and> path_exists (disk c) (snd x)"
    by (auto simp: segment_def)
  have "preserves (disk a) (disk c)" using 1(1) 2(1) by (rule preserves_trans)
  moreover have "copies c = copies a @ (cs1 @ cs2)" using 1(2) 2(2) by simp
  moreover have "snd ` set cs1 \<inter> snd ` set cs2 = {}"
  proof (rule ccontr)
    assume "snd ` set cs1 \<inter> snd ` set cs2 \<noteq> {}"
    then obtain x y where "x \<in> set cs1" "y \<in> set cs2" "snd x = snd y" by auto
    with 1(4) 2(4) show False by metis
  qed
  then have "distinct (map snd (cs1 @ cs2))"
    using 1(3) 2(3) by simp
  moreover have "\<forall>x\<in>set (cs1 @ cs2). \<not> path_exists (disk a) (snd x) \<and> path_exists (disk c) (snd x)"
    using 1(4) 2(4) 1(1) 2(1) by (auto dest: preserves_exists)
  ultimately show ?thesis unfolding segment_def by blast
qed


section \<open>One file, one batch, the copy phase\<close>

lemma try_body_cases:
  obtains (keyerror) "cm src = None"
      "try_body env cm out src fs = (Raise ''KeyError'', fs, [])"
  | (primary_raise) dest_folder msg fs1 where "cm src = Some dest_folder"
      "copy_file_with_versioning env src dest_folder out fs = (Raise msg, fs1)"
      "try_body env cm out src fs = (Raise msg, fs1, [])"
  | (plain) dest_folder d1 fs1 where "cm src = Some dest_folder"
      "\<not> is_favorite (name src)"
      "copy_file_with_versioning env src dest_folder out fs = (Return d1, fs1)"
      "try_body env cm out src fs = (Return (), fs1, [(src, d1)])"
  | (fav_raise) dest_folder d1 fs1 msg fs2 where "cm src = Some dest_folder"
      "is_favorite (name src)"
      "copy_file_with_versioning env src dest_folder out fs = (Return d1, fs1)"
      "copy_file_with_versioning env src (dest_folder @ ''/'' @ FAVORITES_SUBFOLDER) out fs1
         = (Raise msg, fs2)"
      "try_body env cm out src fs = (Raise msg, fs2, [(src, d1)])"
  | (fav_ok) dest_folder d1 fs1 d2 fs2 where "cm src = Some dest_folder"
      "is_favorite (name src)"
      "copy_file_with_versioning env src dest_folder out fs = (Return d1, fs1)"
      "copy_file_with_versioning env src (dest_folder @ ''/'' @ FAVORITES_SUBFOLDER) out fs1
         = (Return d2, fs2)"
      "try_body env cm out src fs = (Return (), fs2, [(src, d1), (src, d2)])"
proof (cases "cm src")
  case None
  then show ?thesis using keyerror by (simp add: try_body_def)
next
  case (Some dest_folder)
  obtain r1 fs1 where c1: "copy_file_with_versioning env src dest_folder out fs = (r1, fs1)"
    by (cases "copy_file_with_versioning env src dest_folder out fs")
  show ?thesis
  proof (cases r1)
    case (Raise msg)
    with Some c1 show ?thesis using primary_raise by (simp add: try_body_def)
  next
    case (Return d1)
    show ?thesis
    proof (cases "is_favorite (name src)")
      case False
      with Some c1 Return show ?thesis using plain by (simp add: try_body_def)
    next
      case True
      obtain r2 fs2 where c2:
        "copy_file_with_versioning env src (dest_folder @ ''/'' @ FAVORITES_SUBFOLDER) out fs1
           = (r2, fs2)"
        by (cases "copy_file_with_versioning env src (dest_folder @ ''/'' @ FAVORITES_SUBFOLDER) out fs1")
      show ?thesis
      proof (cases r2)
        case (Raise msg)
        with Some c1 Return True c2 show ?thesis using fav_raise
          by (simp add: try_body_def Let_def)
      next
        case r2: (Return d2)
        with Some c1 Return True c2 show ?thesis using fav_ok
          by (simp add: try_body_def Let_def)
      qed
    qed
  qed
qed

text \<open>The same for the file system and the list of copies alone.\<close>

definition fs_segment :: "filesystem \<Rightarrow> filesystem \<Rightarrow> (path \<times> path) list \<Rightarrow> bool" where
  "fs_segment fs fs' cs =
     (preserves fs fs' \<and> distinct (map snd cs)
      \<and> (\<forall>x\<in>set cs. \<not> path_exists fs (snd x) \<and> path_exists fs' (snd x)))"

lemma try_body_segment:
  assumes "try_body env cm out src fs = (r, fs', cs)"
  shows "fs_segment fs fs' cs"
proof (cases rule: try_body_cases [of cm src env out fs])
  case keyerror
  with assms show ?thesis by (auto simp: fs_segment_def preserves_refl)
next
  case (primary_raise dest_folder msg fs1)
  with assms cfv_props(1) [OF primary_raise(2)] show ?thesis by (auto simp: fs_segment_def)
next
  case (plain dest_folder d1 fs1)
  with assms cfv_return [OF plain(3)] show ?thesis by (auto simp: fs_segment_def)
next
  case (fav_raise dest_folder d1 fs1 msg fs2)
  note a = cfv_return [OF fav_raise(3)] and b = cfv_props(1) [OF fav_raise(4)]
  have "preserves fs fs2" using a(3) b by (rule preserves_trans)
  moreover have "path_exists fs2 d1" using b a(2) by (rule preserves_exists)
  ultimately show ?thesis using assms fav_raise(5) a(1) by (auto simp: fs_segment_def)
next
  case (fav_ok dest_folder d1 fs1 d2 fs2)
  note a = cfv_return [OF fav_ok(3)] and b = cfv_return [OF fav_ok(4)]
  have "preserves fs fs2" using a(3) b(3) by (rule preserves_trans)
  moreover have "path_exists fs2 d1" using b(3) a(2) by (rule preserves_exists)
  moreover have "d1 \<noteq> d2" using a(2) b(1) by auto
  moreover have "\<not> path_exists fs d2" using a(3) b(1) by (auto dest: preserves_exists)
  ultimately show ?thesis using assms fav_ok(5) a(1) b(2) by (auto simp: fs_segment_def)
qed

lemma process_file_segment: "segment st (process_file env cm out src st)"
proof -
  obtain r fs' cs where t: "try_body env cm out src (disk st) = (r, fs', cs)"
    by (cases "try_body env cm out src (disk st)")
  from try_body_segment [OF t] show ?thesis
    using t by (cases r) (auto simp: process_file_def segment_def fs_segment_def)
qed

lemma process_batch_segment: "segment st (process_batch env cm out files st)"
proof (induction files arbitrary: st)
  case Nil
  show ?case by (simp add: segment_refl)
next
  case (Cons f files)
  have "segment st (process_file env cm out f st)" by (rule process_file_segment)
  moreover have "segment (process_file env cm out f st)
      (process_batch env cm out files (process_file env cm out f st))" by (rule Cons.IH)
  ultimately show ?case by (simp add: segment_trans)
qed

lemma process_batch_append:
  "process_batch env cm out (xs @ ys) st
     = process_batch env cm out ys (process_batch env cm out xs st)"
  by (induction xs arbitrary: st) auto

lemma copy_phase_concat:
  "copy_phase env cm out bs st = process_batch env cm out (concat bs) st"
  by (induction bs arbitrary: st) (auto simp: process_batch_append)

lemma concat_batches: "0 < n \<Longrightarrow> concat (batches n xs) = xs"
proof (induction n xs rule: batches.induct)
  case (1 n xs)
  show ?case
  proof (cases "xs = []")
    case True
    then show ?thesis by (subst batches.simps) simp
  next
    case False
    with "1.prems" have "batches n xs = take n xs # batches n (drop n xs)"
      by (subst batches.simps) simp
    moreover have "concat (batches n (drop n xs)) = drop n xs"
      using "1.IH" "1.prems" False by simp
    ultimately show ?thesis by simp
  qed
qed

lemma copy_phase_files:
  "copy_phase env cm out (batches BATCH_SIZE files) st = process_batch env cm out files st"
  by (simp add: copy_phase_concat concat_batches BATCH_SIZE_def)

lemma process_batch_foldl:
  "process_batch env cm out files st = foldl (\<lambda>s f. process_file env cm out f s) st files"
  by (induction files arbitrary: st) auto


lemma get_next_version_form:
  "(\<not> path_exists fs p \<longrightarrow> get_next_version_filename fs p = p)
   \<and> (path_exists fs p \<longrightarrow>
        (\<exists>n\<ge>2. get_next_version_filename fs p = parent p @ [new_name (stem p) (suffix p) n]))"
proof (cases "path_exists fs p")
  case False
  then show ?thesis by (simp add: get_next_version_filename_def)
next
  case True
  with version_loop_spec [of 2 fs "parent p" "stem p" "suffix p"] show ?thesis
    by (auto simp: get_next_version_filename_def)
qed

lemma process_file_outcome:
  assumes "try_body env cm out f (disk s) = (r, fs', cs)"
  shows "r = Return () \<Longrightarrow> errors (process_file env cm out f s) = errors s
            \<and> processed (process_file env cm out f s) = processed s + 1"
    and "r = Raise msg \<Longrightarrow> errors (process_file env cm out f s) = errors s @ [(name f, msg)]
            \<and> processed (process_file env cm out f s) = processed s"
  using assms by (simp_all add: process_file_def)

lemma process_file_count:
  "processed (process_file env cm out f s) + length (errors (process_file env cm out f s))
     = processed s + length (errors s) + 1"
proof -
  obtain r fs' cs where t: "try_body env cm out f (disk s) = (r, fs', cs)"
    by (cases "try_body env cm out f (disk s)")
  show ?thesis using t by (cases r) (simp_all add: process_file_def)
qed

lemma process_batch_count:
  "processed (process_batch env cm out files s) + length (errors (process_batch env cm out files s))
     = processed s + length (errors s) + length files"
proof (induction files arbitrary: s)
  case Nil
  show ?case by simp
next
  case (Cons f files)
  show ?case using Cons.IH [of "process_file env cm out f s"] process_file_count [of env cm out f s]
    by simp
qed

text \<open>
  C6. A failure while copying one file does not stop the run. The copy phase is
  the fold of \<open>process_file\<close> over all files in their order, so every file is
  processed whatever happened to the files before it. When the primary copy of a
  file raises, or its favorites copy raises, the pair of the file name and the
  message is appended to \<open>errors\<close> and \<open>processed\<close> is not incremented. At the
  end every file was either counted as processed or recorded as an error.
\<close>

theorem copy_failure_isolated:
  "copy_phase env cm out (batches BATCH_SIZE files) st
      = foldl (\<lambda>s f. process_file env cm out f s) st files
   \<and> (cm f = Some dest_folder
        \<and> copy_file_with_versioning env f dest_folder out (disk s) = (Raise msg, fs1)
      \<longrightarrow> errors (process_file env cm out f s) = errors s @ [(name f, msg)]
          \<and> processed (process_file env cm out f s) = processed s)
   \<and> (cm f = Some dest_folder \<and> is_favorite (name f)
        \<and> copy_file_with_versioning env f dest_folder out (disk s) = (Return d1, fs1)
        \<and> copy_file_with_versioning env f (dest_folder @ ''/'' @ FAVORITES_SUBFOLDER) out fs1
             = (Raise msg, fs2)
      \<longrightarrow> errors (process_file env cm out f s) = errors s @ [(name f, msg)]
          \<and> processed (process_file env cm out f s) = processed s)
   \<and> (let st' = copy_phase env cm out (batches BATCH_SIZE files) st
      in processed st' + length (errors st') = processed st + length (errors st) + length files)"
proof -
  have a: "copy_phase env cm out (batches BATCH_SIZE files) st
      = foldl (\<lambda>s f. process_file env cm out f s) st files"
    by (simp add: copy_phase_files process_batch_foldl)
  have b: "errors (process_file env cm out f s) = errors s @ [(name f, msg)]
          \<and> processed (process_file env cm out f s) = processed s"
    if "cm f = Some dest_folder"
      "copy_file_with_versioning env f dest_folder out (disk s) = (Raise msg, fs1)"
    using that by (simp add: process_file_def try_body_def)
  have c: "errors (process_file env cm out f s) = errors s @ [(name f, msg)]
          \<and> processed (process_file env cm out f s) = processed s"
    if "cm f = Some dest_folder" "is_favorite (name f)"
      "copy_file_with_versioning env f dest_folder out (disk s) = (Return d1, fs1)"
      "copy_file_with_versioning env f (dest_folder @ ''/'' @ FAVORITES_SUBFOLDER) out fs1
             = (Raise msg, fs2)"
    using that by (simp add: process_file_def try_body_def Let_def)
  have d: "let st' = copy_phase env cm out (batches BATCH_SIZE files) st
      in processed st' + length (errors st') = processed st + length (errors st) + length files"
    by (simp add: copy_phase_files process_batch_count Let_def)
  from a b c d show ?thesis by blast
qed


section \<open>Running the pipeline on concrete inputs\<close>

lemma version_loop_stop:
  "\<not> path_exists fs (par @ [new_name stm suf counter]) \<Longrightarrow>
     version_loop fs par stm suf counter = par @ [new_name stm suf counter]"
  by (subst version_loop.simps) simp

lemma version_loop_next:
  "path_exists fs (par @ [new_name stm suf counter]) \<Longrightarrow>
     version_loop fs par stm suf counter = version_loop fs par stm suf (counter + 1)"
  by (subst version_loop.simps) simp

lemmas fs_eval = mkdir_Dir mkdir_File mkdir_None copy2_def copy_file_with_versioning_def
  get_next_version_filename_def version_loop_stop version_loop_next new_name_def
  slash_def components_def name_def parent_def stem_def suffix_def rfind_def Let_def
  path_exists_def lookup_def str_nat_digit digit_char_def char_of_def bit_iff_odd

lemmas run_eval = sort_music_def copy_phase_files process_file_def try_body_def
  is_favorite_def FAVORITES_SUBFOLDER_def

lemma lower_melodic_dream: "lower ''Melodic Dream.wav'' = ''melodic dream.wav''"
  by (simp add: char_eval)

lemma lower_techno_night: "lower ''Techno Night.wav'' = ''techno night.wav''"
  by (simp add: char_eval)

lemma lower_pop_anthem: "lower ''+++Pop Anthem.wav'' = ''+++pop anthem.wav''"
  by (simp add: char_eval)

lemma classify_melodic_dream:
  "classify_file ''melodic dream.wav'' = (''02_Atmospheric_Electronic/Ethereal'', 4)"
  by (simp add: char_eval classify_eval)

lemma classify_techno_night:
  "classify_file ''techno night.wav'' = (''01_Electronic_Dance/Techno'', 3)"
  by (simp add: char_eval classify_eval)

lemma classify_pop_anthem:
  "classify_file ''+++pop anthem.wav'' = (''04_Pop_Mainstream/Pop'', 5)"
  by (simp add: char_eval classify_eval)

lemmas scenario_eval = lower_melodic_dream lower_techno_night lower_pop_anthem
  classify_melodic_dream classify_techno_night classify_pop_anthem

text \<open>
  The first end-to-end scenario of the specification: an input folder \<open>in\<close>
  that holds these three files, sorted into \<open>in/SORTED_MUSIC\<close> (no output
  directory given) on a file system that refuses nothing.
\<close>

definition scenario_fs :: filesystem where
  "scenario_fs = [([''in'', ''Melodic Dream.wav''], File ''dream''),
                  ([''in'', ''Techno Night.wav''], File ''techno''),
                  ([''in'', ''+++Pop Anthem.wav''], File ''pop''),
                  ([''in''], Dir)]"

definition scenario_files :: "path list" where
  "scenario_files = [[''in'', ''Melodic Dream.wav''], [''in'', ''Techno Night.wav''],
                     [''in'', ''+++Pop Anthem.wav'']]"

lemma scenario_copy1:
  "copy_file_with_versioning (\<lambda>fs op. None) [''in'', ''Melodic Dream.wav'']
     ''02_Atmospheric_Electronic/Ethereal'' [''in'', ''SORTED_MUSIC'']
     [([''in'', ''Melodic Dream.wav''], File ''dream''),
     ([''in'', ''Techno Night.wav''], File ''techno''),
     ([''in'', ''+++Pop Anthem.wav''], File ''pop''),
     ([''in''], Dir)]
   = (Return [''in'', ''SORTED_MUSIC'', ''02_Atmospheric_Electronic'', ''Ethereal'', ''Melodic Dream.wav''],
     [([''in'', ''SORTED_MUSIC'', ''02_Atmospheric_Electronic'', ''Ethereal'', ''Melodic Dream.wav''], File ''dream''),
     ([''in'', ''SORTED_MUSIC'', ''02_Atmospheric_Electronic'', ''Ethereal''], Dir),
     ([''in'', ''SORTED_MUSIC'', ''02_Atmospheric_Electronic''], Dir),
     ([''in'', ''SORTED_MUSIC''], Dir),
     ([''in'', ''Melodic Dream.wav''], File ''dream''),
     ([''in'', ''Techno Night.wav''], File ''techno''),
     ([''in'', ''+++Pop Anthem.wav''], File ''pop''),
     ([''in''], Dir)])"
  by (simp add: fs_eval)

lemma scenario_copy2:
  "copy_file_with_versioning (\<lambda>fs op. None) [''in'', ''Techno Night.wav'']
     ''01_Electronic_Dance/Techno'' [''in'', ''SORTED_MUSIC'']
     [([''in'', ''SORTED_MUSIC'', ''02_Atmospheric_Electronic'', ''Ethereal'', ''Melodic Dream.wav''], File ''dream''),
     ([''in'', ''SORTED_MUSIC'', ''02_Atmospheric_Electronic'', ''Ethereal''], Dir),
     ([''in'', ''SORTED_MUSIC'', ''02_Atmospheric_Electronic''], Dir),
     ([''in'', ''SORTED_MUSIC''], Dir),
     ([''in'', ''Melodic Dream.wav''], File ''dream''),
     ([''in'', ''Techno Night.wav''], File ''techno''),
     ([''in'', ''+++Pop Anthem.wav''], File ''pop''),
     ([''in''], Dir)]
   = (Return [''in'', ''SORTED_MUSIC'', ''01_Electronic_Dance'', ''Techno'', ''Techno Night.wav''],
     [([''in'', ''SORTED_MUSIC'', ''01_Electronic_Dance'', ''Techno'', ''Techno Night.wav''], File ''techno''),
     ([''in'', ''SORTED_MUSIC'', ''01_Electronic_Dance'', ''Techno''], Dir),
     ([''in'', ''SORTED_MUSIC'', ''01_Electronic_Dance''], Dir),
     ([''in'', ''SORTED_MUSIC'', ''02_Atmospheric_Electronic'', ''Ethereal'', ''Melodic Dream.wav''], File ''dream''),
     ([''in'', ''SORTED_MUSIC'', ''02_Atmospheric_Electronic'', ''Ethereal''], Dir),
     ([''in'', ''SORTED_MUSIC'', ''02_Atmospheric_Electronic''], Dir),
     ([''in'', ''SORTED_MUSIC''], Dir),
     ([''in'', ''Melodic Dream.wav''], File ''dream''),
     ([''in'', ''Techno Night.wav''], File ''techno''),
     ([''in'', ''+++Pop Anthem.wav''], File ''pop''),
     ([''in''], Dir)])"
  by (simp add: fs_eval)

lemma scenario_copy3:
  "copy_file_with_versioning (\<lambda>fs op. None) [''in'', ''+++Pop Anthem.wav'']
     ''04_Pop_Mainstream/Pop'' [''in'', ''SORTED_MUSIC'']
     [([''in'', ''SORTED_MUSIC'', ''01_Electronic_Dance'', ''Techno'', ''Techno Night.wav''], File ''techno''),
     ([''in'', ''SORTED_MUSIC'', ''01_Electronic_Dance'', ''Techno''], Dir),
     ([''in'', ''SORTED_MUSIC'', ''01_Electronic_Dance''], Dir),
     ([''in'', ''SORTED_MUSIC'', ''02_Atmospheric_Electronic'', ''Ethereal'', ''Melodic Dream.wav''], File ''dream''),
     ([''in'', ''SORTED_MUSIC'', ''02_Atmospheric_Electronic'', ''Ethereal''], Dir),
     ([''in'', ''SORTED_MUSIC'', ''02_Atmospheric_Electronic''], Dir),
     ([''in'', ''SORTED_MUSIC''], Dir),
     ([''in'', ''Melodic Dream.wav''], File ''dream''),
     ([''in'', ''Techno Night.wav''], File ''techno''),
     ([''in'', ''+++Pop Anthem.wav''], File ''pop''),
     ([''in''], Dir)]
   = (Return [''in'', ''SORTED_MUSIC'', ''04_Pop_Mainstream'', ''Pop'', ''+++Pop Anthem.wav''],
     [([''in'', ''SORTED_MUSIC'', ''04_Pop_Mainstream'', ''Pop'', ''+++Pop Anthem.wav''], File ''pop''),
     ([''in'', ''SORTED_MUSIC'', ''04_Pop_Mainstream'', ''Pop''], Dir),
     ([''in'', ''SORTED_MUSIC'', ''04_Pop_Mainstream''], Dir),
     ([''in'', ''SORTED_MUSIC'', ''01_Electronic_Dance'', ''Techno'', ''Techno Night.wav''], File ''techno''),
     ([''in'', ''SORTED_MUSIC'', ''01_Electronic_Dance'', ''Techno''], Dir),
     ([''in'', ''SORTED_MUSIC'', ''01_Electronic_Dance''], Dir),
     ([''in'', ''SORTED_MUSIC'', ''02_Atmospheric_Electronic'', ''Ethereal'', ''Melodic Dream.wav''], File ''dream''),
     ([''in'', ''SORTED_MUSIC'', ''02_Atmospheric_Electronic'', ''Ethereal''], Dir),
     ([''in'', ''SORTED_MUSIC'', ''02_Atmospheric_Electronic''], Dir),
     ([''in'', ''SORTED_MUSIC''], Dir),
     ([''in'', ''Melodic Dream.wav''], File ''dream''),
     ([''in'', ''Techno Night.wav''], File ''techno''),
     ([''in'', ''+++Pop Anthem.wav''], File ''pop''),
     ([''in''], Dir)])"
  by (simp add: fs_eval)

lemma scenario_copy4:
  "copy_file_with_versioning (\<lambda>fs op. None) [''in'', ''+++Pop Anthem.wav'']
     ''04_Pop_Mainstream/Pop/_FAVORITES'' [''in'', ''SORTED_MUSIC'']
     [([''in'', ''SORTED_MUSIC'', ''04_Pop_Mainstream'', ''Pop'', ''+++Pop Anthem.wav''], File ''pop''),
     ([''in'', ''SORTED_MUSIC'', ''04_Pop_Mainstream'', ''Pop''], Dir),
     ([''in'', ''SORTED_MUSIC'', ''04_Pop_Mainstream''], Dir),
     ([''in'', ''SORTED_MUSIC'', ''01_Electronic_Dance'', ''Techno'', ''Techno Night.wav''], File ''techno''),
     ([''in'', ''SORTED_MUSIC'', ''01_Electronic_Dance'', ''Techno''], Dir),
     ([''in'', ''SORTED_MUSIC'', ''01_Electronic_Dance''], Dir),
     ([''in'', ''SORTED_MUSIC'', ''02_Atmospheric_Electronic'', ''Ethereal'', ''Melodic Dream.wav''], File ''dream''),
     ([''in'', ''SORTED_MUSIC'', ''02_Atmospheric_Electronic'', ''Ethereal''], Dir),
     ([''in'', ''SORTED_MUSIC'', ''02_Atmospheric_Electronic''], Dir),
     ([''in'', ''SORTED_MUSIC''], Dir),
     ([''in'', ''Melodic Dream.wav''], File ''dream''),
     ([''in'', ''Techno Night.wav''], File ''techno''),
     ([''in'', ''+++Pop Anthem.wav''], File ''pop''),
     ([''in''], Dir)]
   = (Return [''in'', ''SORTED_MUSIC'', ''04_Pop_Mainstream'', ''Pop'', ''_FAVORITES'', ''+++Pop Anthem.wav''],
     [([''in'', ''SORTED_MUSIC'', ''04_Pop_Mainstream'', ''Pop'', ''_FAVORITES'', ''+++Pop Anthem.wav''], File ''pop''),
     ([''in'', ''SORTED_MUSIC'', ''04_Pop_Mainstream'', ''Pop'', ''_FAVORITES''], Dir),
     ([''in'', ''SORTED_MUSIC'', ''04_Pop_Mainstream'', ''Pop'', ''+++Pop Anthem.wav''], File ''pop''),
     ([''in'', ''SORTED_MUSIC'', ''04_Pop_Mainstream'', ''Pop''], Dir),
     ([''in'', ''SORTED_MUSIC'', ''04_Pop_Mainstream''], Dir),
     ([''in'', ''SORTED_MUSIC'', ''01_Electronic_Dance'', ''Techno'', ''Techno Night.wav''], File ''techno''),
     ([''in'', ''SORTED_MUSIC'', ''01_Electronic_Dance'', ''Techno''], Dir),
     ([''in'', ''SORTED_MUSIC'', ''01_Electronic_Dance''], Dir),
     ([''in'', ''SORTED_MUSIC'', ''02_Atmospheric_Electronic'', ''Ethereal'', ''Melodic Dream.wav''], File ''dream''),
     ([''in'', ''SORTED_MUSIC'', ''02_Atmospheric_Electronic'', ''Ethereal''], Dir),
     ([''in'', ''SORTED_MUSIC'', ''02_Atmospheric_Electronic''], Dir),
     ([''in'', ''SORTED_MUSIC''], Dir),
     ([''in'', ''Melodic Dream.wav''], File ''dream''),
     ([''in'', ''Techno Night.wav''], File ''techno''),
     ([''in'', ''+++Pop Anthem.wav''], File ''pop''),
     ([''in''], Dir)])"
  by (simp add: fs_eval)

lemmas scenario_copies = scenario_copy1 scenario_copy2 scenario_copy3 scenario_copy4

lemma scenario_file1:
  "process_file (\<lambda>fs op. None)
     [[''in'', ''Melodic Dream.wav''] \<mapsto> ''02_Atmospheric_Electronic/Ethereal'', [''in'', ''Techno Night.wav''] \<mapsto> ''01_Electronic_Dance/Techno'', [''in'', ''+++Pop Anthem.wav''] \<mapsto> ''04_Pop_Mainstream/Pop'']
     [''in'', ''SORTED_MUSIC''] [''in'', ''Melodic Dream.wav'']
     \<lparr>disk = [([''in'', ''Melodic Dream.wav''], File ''dream''),
               ([''in'', ''Techno Night.wav''], File ''techno''),
               ([''in'', ''+++Pop Anthem.wav''], File ''pop''),
               ([''in''], Dir)],
       processed = n, errors = es, copies = cs\<rparr>
   = \<lparr>disk = [([''in'', ''SORTED_MUSIC'', ''02_Atmospheric_Electronic'', ''Ethereal'', ''Melodic Dream.wav''], File ''dream''),
               ([''in'', ''SORTED_MUSIC'', ''02_Atmospheric_Electronic'', ''Ethereal''], Dir),
               ([''in'', ''SORTED_MUSIC'', ''02_Atmospheric_Electronic''], Dir),
               ([''in'', ''SORTED_MUSIC''], Dir),
               ([''in'', ''Melodic Dream.wav''], File ''dream''),
               ([''in'', ''Techno Night.wav''], File ''techno''),
               ([''in'', ''+++Pop Anthem.wav''], File ''pop''),
               ([''in''], Dir)],
       processed = n + 1, errors = es,
       copies = cs @ [([''in'', ''Melodic Dream.wav''], [''in'', ''SORTED_MUSIC'', ''02_Atmospheric_Electronic'', ''Ethereal'', ''Melodic Dream.wav''])]\<rparr>"
  by (simp add: process_file_def try_body_def Let_def is_favorite_def FAVORITES_SUBFOLDER_def
      name_def scenario_copies)

lemma scenario_file2:
  "process_file (\<lambda>fs op. None)
     [[''in'', ''Melodic Dream.wav''] \<mapsto> ''02_Atmospheric_Electronic/Ethereal'', [''in'', ''Techno Night.wav''] \<mapsto> ''01_Electronic_Dance/Techno'', [''in'', ''+++Pop Anthem.wav''] \<mapsto> ''04_Pop_Mainstream/Pop'']
     [''in'', ''SORTED_MUSIC''] [''in'', ''Techno Night.wav'']
     \<lparr>disk = [([''in'', ''SORTED_MUSIC'', ''02_Atmospheric_Electronic'', ''Ethereal'', ''Melodic Dream.wav''], File ''dream''),
               ([''in'', ''SORTED_MUSIC'', ''02_Atmospheric_Electronic'', ''Ethereal''], Dir),
               ([''in'', ''SORTED_MUSIC'', ''02_Atmospheric_Electronic''], Dir),
               ([''in'', ''SORTED_MUSIC''], Dir),
               ([''in'', ''Melodic Dream.wav''], File ''dream''),
               ([''in'', ''Techno Night.wav''], File ''techno''),
               ([''in'', ''+++Pop Anthem.wav''], File ''pop''),
               ([''in''], Dir)],
       processed = n, errors = es, copies = cs\<rparr>
   = \<lparr>disk = [([''in'', ''SORTED_MUSIC'', ''01_Electronic_Dance'', ''Techno'', ''Techno Night.wav''], File ''techno''),
               ([''in'', ''SORTED_MUSIC'', ''01_Electronic_Dance'', ''Techno''], Dir),
               ([''in'', ''SORTED_MUSIC'', ''01_Electronic_Dance''], Dir),
               ([''in'', ''SORTED_MUSIC'', ''02_Atmospheric_Electronic'', ''Ethereal'', ''Melodic Dream.wav''], File ''dream''),
               ([''in'', ''SORTED_MUSIC'', ''02_Atmospheric_Electronic'', ''Ethereal''], Dir),
               ([''in'', ''SORTED_MUSIC'', ''02_Atmospheric_Electronic''], Dir),
               ([''in'', ''SORTED_MUSIC''], Dir),
               ([''in'', ''Melodic Dream.wav''], File ''dream''),
               ([''in'', ''Techno Night.wav''], File ''techno''),
               ([''in'', ''+++Pop Anthem.wav''], File ''pop''),
               ([''in''], Dir)],
       processed = n + 1, errors = es,
       copies = cs @ [([''in'', ''Techno Night.wav''], [''in'', ''SORTED_MUSIC'', ''01_Electronic_Dance'', ''Techno'', ''Techno Night.wav''])]\<rparr>"
  by (simp add: process_file_def try_body_def Let_def is_favorite_def FAVORITES_SUBFOLDER_def
      name_def scenario_copies)

lemma scenario_file3:
  "process_file (\<lambda>fs op. None)
     [[''in'', ''Melodic Dream.wav''] \<mapsto> ''02_Atmospheric_Electronic/Ethereal'', [''in'', ''Techno Night.wav''] \<mapsto> ''01_Electronic_Dance/Techno'', [''in'', ''+++Pop Anthem.wav''] \<mapsto> ''04_Pop_Mainstream/Pop'']
     [''in'', ''SORTED_MUSIC''] [''in'', ''+++Pop Anthem.wav'']
     \<lparr>disk = [([''in'', ''SORTED_MUSIC'', ''01_Electronic_Dance'', ''Techno'', ''Techno Night.wav''], File ''techno''),
               ([''in'', ''SORTED_MUSIC'', ''01_Electronic_Dance'', ''Techno''], Dir),
               ([''in'', ''SORTED_MUSIC'', ''01_Electronic_Dance''], Dir),
               ([''in'', ''SORTED_MUSIC'', ''02_Atmospheric_Electronic'', ''Ethereal'', ''Melodic Dream.wav''], File ''dream''),
               ([''in'', ''SORTED_MUSIC'', ''02_Atmospheric_Electronic'', ''Ethereal''], Dir),
               ([''in'', ''SORTED_MUSIC'', ''02_Atmospheric_Electronic''], Dir),
               ([''in'', ''SORTED_MUSIC''], Dir),
               ([''in'', ''Melodic Dream.wav''], File ''dream''),
               ([''in'', ''Techno Night.wav''], File ''techno''),
               ([''in'', ''+++Pop Anthem.wav''], File ''pop''),
               ([''in''], Dir)],
       processed = n, errors = es, copies = cs\<rparr>
   = \<lparr>disk = [([''in'', ''SORTED_MUSIC'', ''04_Pop_Mainstream'', ''Pop'', ''_FAVORITES'', ''+++Pop Anthem.wav''], File ''pop''),
               ([''in'', ''SORTED_MUSIC'', ''04_Pop_Mainstream'', ''Pop'', ''_FAVORITES''], Dir),
               ([''in'', ''SORTED_MUSIC'', ''04_Pop_Mainstream'', ''Pop'', ''+++Pop Anthem.wav''], File ''pop''),
               ([''in'', ''SORTED_MUSIC'', ''04_Pop_Mainstream'', ''Pop''], Dir),
               ([''in'', ''SORTED_MUSIC'', ''04_Pop_Mainstream''], Dir),
               ([''in'', ''SORTED_MUSIC'', ''01_Electronic_Dance'', ''Techno'', ''Techno Night.wav''], File ''techno''),
               ([''in'', ''SORTED_MUSIC'', ''01_Electronic_Dance'', ''Techno''], Dir),
               ([''in'', ''SORTED_MUSIC'', ''01_Electronic_Dance''], Dir),
               ([''in'', ''SORTED_MUSIC'', ''02_Atmospheric_Electronic'', ''Ethereal'', ''Melodic Dream.wav''], File ''dream''),
               ([''in'', ''SORTED_MUSIC'', ''02_Atmospheric_Electronic'', ''Ethereal''], Dir),
               ([''in'', ''SORTED_MUSIC'', ''02_Atmospheric_Electronic''], Dir),
               ([''in'', ''SORTED_MUSIC''], Dir),
               ([''in'', ''Melodic Dream.wav''], File ''dream''),
               ([''in'', ''Techno Night.wav''], File ''techno''),
               ([''in'', ''+++Pop Anthem.wav''], File ''pop''),
               ([''in''], Dir)],
       processed = n + 1, errors = es,
       copies = cs @ [([''in'', ''+++Pop Anthem.wav''], [''in'', ''SORTED_MUSIC'', ''04_Pop_Mainstream'', ''Pop'', ''+++Pop Anthem.wav'']),
                 ([''in'', ''+++Pop Anthem.wav''], [''in'', ''SORTED_MUSIC'', ''04_Pop_Mainstream'', ''Pop'', ''_FAVORITES'', ''+++Pop Anthem.wav''])]\<rparr>"
  by (simp add: process_file_def try_body_def Let_def is_favorite_def FAVORITES_SUBFOLDER_def
      name_def scenario_copies)


lemma scenario_classes:
  "classify_all scenario_files
     \<lparr>classification_map = Map.empty, stats = (\<lambda>x. 0), favorites_count = 0\<rparr>
   = \<lparr>classification_map = [[''in'', ''Melodic Dream.wav''] \<mapsto> ''02_Atmospheric_Electronic/Ethereal'', [''in'', ''Techno Night.wav''] \<mapsto> ''01_Electronic_Dance/Techno'', [''in'', ''+++Pop Anthem.wav''] \<mapsto> ''04_Pop_Mainstream/Pop''],
      stats = ((\<lambda>x. 0)(''02_Atmospheric_Electronic/Ethereal'' := 1,
                 ''01_Electronic_Dance/Techno'' := 1, ''04_Pop_Mainstream/Pop'' := 1)),
      favorites_count = 1\<rparr>"
  by (simp add: scenario_files_def scenario_eval name_def is_favorite_def)


lemma scenario_run:
  "sort_music (\<lambda>fs op. None) scenario_files [''in''] None scenario_fs
   = Some (\<lparr>report_stats = ((\<lambda>x. 0)(''02_Atmospheric_Electronic/Ethereal'' := 1,
                 ''01_Electronic_Dance/Techno'' := 1, ''04_Pop_Mainstream/Pop'' := 1)),
            report_processed = 3, report_favorites = 1, report_errors = []\<rparr>,
           \<lparr>disk = [([''in'', ''SORTED_MUSIC'', ''04_Pop_Mainstream'', ''Pop'', ''_FAVORITES'', ''+++Pop Anthem.wav''], File ''pop''),
               ([''in'', ''SORTED_MUSIC'', ''04_Pop_Mainstream'', ''Pop'', ''_FAVORITES''], Dir),
               ([''in'', ''SORTED_MUSIC'', ''04_Pop_Mainstream'', ''Pop'', ''+++Pop Anthem.wav''], File ''pop''),
               ([''in'', ''SORTED_MUSIC'', ''04_Pop_Mainstream'', ''Pop''], Dir),
               ([''in'', ''SORTED_MUSIC'', ''04_Pop_Mainstream''], Dir),
               ([''in'', ''SORTED_MUSIC'', ''01_Electronic_Dance'', ''Techno'', ''Techno Night.wav''], File ''techno''),
               ([''in'', ''SORTED_MUSIC'', ''01_Electronic_Dance'', ''Techno''], Dir),
               ([''in'', ''SORTED_MUSIC'', ''01_Electronic_Dance''], Dir),
               ([''in'', ''SORTED_MUSIC'', ''02_Atmospheric_Electronic'', ''Ethereal'', ''Melodic Dream.wav''], File ''dream''),
               ([''in'', ''SORTED_MUSIC'', ''02_Atmospheric_Electronic'', ''Ethereal''], Dir),
               ([''in'', ''SORTED_MUSIC'', ''02_Atmospheric_Electronic''], Dir),
               ([''in'', ''SORTED_MUSIC''], Dir),
               ([''in'', ''Melodic Dream.wav''], File ''dream''),
               ([''in'', ''Techno Night.wav''], File ''techno''),
               ([''in'', ''+++Pop Anthem.wav''], File ''pop''),
               ([''in''], Dir)],
       processed = 3, errors = [],
       copies = [([''in'', ''Melodic Dream.wav''], [''in'', ''SORTED_MUSIC'', ''02_Atmospheric_Electronic'', ''Ethereal'', ''Melodic Dream.wav'']),
                 ([''in'', ''Techno Night.wav''], [''in'', ''SORTED_MUSIC'', ''01_Electronic_Dance'', ''Techno'', ''Techno Night.wav'']),
                 ([''in'', ''+++Pop Anthem.wav''], [''in'', ''SORTED_MUSIC'', ''04_Pop_Mainstream'', ''Pop'', ''+++Pop Anthem.wav'']),
                 ([''in'', ''+++Pop Anthem.wav''], [''in'', ''SORTED_MUSIC'', ''04_Pop_Mainstream'', ''Pop'', ''_FAVORITES'', ''+++Pop Anthem.wav''])]\<rparr>)"
proof -
  have "process_batch (\<lambda>fs op. None) [[''in'', ''Melodic Dream.wav''] \<mapsto> ''02_Atmospheric_Electronic/Ethereal'', [''in'', ''Techno Night.wav''] \<mapsto> ''01_Electronic_Dance/Techno'', [''in'', ''+++Pop Anthem.wav''] \<mapsto> ''04_Pop_Mainstream/Pop''] [''in'', ''SORTED_MUSIC''] scenario_files
     \<lparr>disk = scenario_fs, processed = 0, errors = [], copies = []\<rparr> = \<lparr>disk = [([''in'', ''SORTED_MUSIC'', ''04_Pop_Mainstream'', ''Pop'', ''_FAVORITES'', ''+++Pop Anthem.wav''], File ''pop''),
               ([''in'', ''SORTED_MUSIC'', ''04_Pop_Mainstream'', ''Pop'', ''_FAVORITES''], Dir),
               ([''in'', ''SORTED_MUSIC'', ''04_Pop_Mainstream'', ''Pop'', ''+++Pop Anthem.wav''], File ''pop''),
               ([''in'', ''SORTED_MUSIC'', ''04_Pop_Mainstream'', ''Pop''], Dir),
               ([''in'', ''SORTED_MUSIC'', ''04_Pop_Mainstream''], Dir),
               ([''in'', ''SORTED_MUSIC'', ''01_Electronic_Dance'', ''Techno'', ''Techno Night.wav''], File ''techno''),
               ([''in'', ''SORTED_MUSIC'', ''01_Electronic_Dance'', ''Techno''], Dir),
               ([''in'', ''SORTED_MUSIC'', ''01_Electronic_Dance''], Dir),
               ([''in'', ''SORTED_MUSIC'', ''02_Atmospheric_Electronic'', ''Ethereal'', ''Melodic Dream.wav''], File ''dream''),
               ([''in'', ''SORTED_MUSIC'', ''02_Atmospheric_Electronic'', ''Ethereal''], Dir),
               ([''in'', ''SORTED_MUSIC'', ''02_Atmospheric_Electronic''], Dir),
               ([''in'', ''SORTED_MUSIC''], Dir),
               ([''in'', ''Melodic Dream.wav''], File ''dream''),
               ([''in'', ''Techno Night.wav''], File ''techno''),
               ([''in'', ''+++Pop Anthem.wav''], File ''pop''),
               ([''in''], Dir)],
       processed = 3, errors = [],
       copies = [([''in'', ''Melodic Dream.wav''], [''in'', ''SORTED_MUSIC'', ''02_Atmospheric_Electronic'', ''Ethereal'', ''Melodic Dream.wav'']),
                 ([''in'', ''Techno Night.wav''], [''in'', ''SORTED_MUSIC'', ''01_Electronic_Dance'', ''Techno'', ''Techno Night.wav'']),
                 ([''in'', ''+++Pop Anthem.wav''], [''in'', ''SORTED_MUSIC'', ''04_Pop_Mainstream'', ''Pop'', ''+++Pop Anthem.wav'']),
                 ([''in'', ''+++Pop Anthem.wav''], [''in'', ''SORTED_MUSIC'', ''04_Pop_Mainstream'', ''Pop'', ''_FAVORITES'', ''+++Pop Anthem.wav''])]\<rparr>"
    by (simp add: scenario_files_def scenario_fs_def scenario_file1 scenario_file2 scenario_file3)
  then show ?thesis
    by (simp add: sort_music_def copy_phase_files Let_def scenario_classes)
       (simp add: scenario_files_def)
qed

text \<open>
  C3, as stated, fails for the first file: \<open>Melodic Dream.wav\<close> does not go to
  the folder of the melodic rule.
\<close>

theorem scenario_melodic_dream_counterexample:
  "fst (classify_file (lower ''Melodic Dream.wav'')) \<noteq> ''02_Atmospheric_Electronic/Melodic''"
  by (simp add: scenario_eval)

text \<open>
  C3, amended. \<open>Melodic Dream.wav\<close> is classified to
  \<open>02_Atmospheric_Electronic/Ethereal\<close>: the keyword \<open>dream\<close> belongs to the
  ethereal rule, which is declared before the melodic rule at the same priority.
  \<open>Techno Night.wav\<close> goes to \<open>01_Electronic_Dance/Techno\<close> and
  \<open>+++Pop Anthem.wav\<close> to \<open>04_Pop_Mainstream/Pop\<close>, with a second copy in
  \<open>04_Pop_Mainstream/Pop/_FAVORITES\<close>. The run makes exactly these four copies,
  reports three files processed, one favorite and no error.
\<close>

theorem scenario_three_files:
  "classify_file (lower ''Melodic Dream.wav'') = (''02_Atmospheric_Electronic/Ethereal'', 4)
   \<and> re_search (word ''dream'') (lower ''Melodic Dream.wav'')
   \<and> classify_file (lower ''Techno Night.wav'') = (''01_Electronic_Dance/Techno'', 3)
   \<and> classify_file (lower ''+++Pop Anthem.wav'') = (''04_Pop_Mainstream/Pop'', 5)
   \<and> is_favorite ''+++Pop Anthem.wav''
   \<and> (\<exists>rep st. sort_music (\<lambda>fs op. None) scenario_files [''in''] None scenario_fs
                   = Some (rep, st)
         \<and> report_processed rep = 3 \<and> report_favorites rep = 1 \<and> report_errors rep = []
         \<and> copies st =
             [([''in'', ''Melodic Dream.wav''],
               [''in'', ''SORTED_MUSIC'', ''02_Atmospheric_Electronic'', ''Ethereal'',
                ''Melodic Dream.wav'']),
              ([''in'', ''Techno Night.wav''],
               [''in'', ''SORTED_MUSIC'', ''01_Electronic_Dance'', ''Techno'',
                ''Techno Night.wav'']),
              ([''in'', ''+++Pop Anthem.wav''],
               [''in'', ''SORTED_MUSIC'', ''04_Pop_Mainstream'', ''Pop'',
                ''+++Pop Anthem.wav'']),
              ([''in'', ''+++Pop Anthem.wav''],
               [''in'', ''SORTED_MUSIC'', ''04_Pop_Mainstream'', ''Pop'', ''_FAVORITES'',
                ''+++Pop Anthem.wav''])]
         \<and> lookup (disk st) [''in'', ''SORTED_MUSIC'', ''02_Atmospheric_Electronic'',
               ''Ethereal'', ''Melodic Dream.wav''] = Some (File ''dream'')
         \<and> lookup (disk st) [''in'', ''SORTED_MUSIC'', ''01_Electronic_Dance'', ''Techno'',
               ''Techno Night.wav''] = Some (File ''techno'')
         \<and> lookup (disk st) [''in'', ''SORTED_MUSIC'', ''04_Pop_Mainstream'', ''Pop'',
               ''+++Pop Anthem.wav''] = Some (File ''pop'')
         \<and> lookup (disk st) [''in'', ''SORTED_MUSIC'', ''04_Pop_Mainstream'', ''Pop'',
               ''_FAVORITES'', ''+++Pop Anthem.wav''] = Some (File ''pop''))"
proof -
  have "re_search (word ''dream'') (lower ''Melodic Dream.wav'')"
    by (simp add: lower_melodic_dream re_search_fast word_def lit_def char_eval)
  moreover have "is_favorite ''+++Pop Anthem.wav''"
    by (simp add: is_favorite_def)
  ultimately show ?thesis
    by (simp add: scenario_eval scenario_run lookup_def)
qed


section \<open>Names and favorites\<close>

text \<open>The names that directory entries can have.\<close>

definition valid_name :: "string \<Rightarrow> bool" where
  "valid_name nm = (nm \<noteq> [] \<and> CHR ''/'' \<notin> set nm \<and> nm \<noteq> ''.'' \<and> nm \<noteq> ''..'')"

lemma split_on_absent: "c \<notin> set s \<Longrightarrow> split_on c s = [s]"
  by (induction s) auto

lemma slash_valid_name: "valid_name nm \<Longrightarrow> slash p nm = p @ [nm]"
  by (simp add: valid_name_def slash_def components_def split_on_absent)

lemma name_snoc: "name (p @ [nm]) = nm"
  by (simp add: name_def)

lemma stem_suffix_name: "stem p @ suffix p = name p"
  by (simp add: stem_def suffix_def Let_def)

lemma stem_snoc: "stem (p @ [name q]) = stem q"
  by (simp add: stem_def name_snoc)

lemma suffix_snoc: "suffix (p @ [name q]) = suffix q"
  by (simp add: suffix_def name_snoc)

lemma version_name:
  assumes "d = get_next_version_filename fs (p @ [name src])"
  shows "parent d = p"
    and "name d = name src \<or> (\<exists>k\<ge>2. name d = stem src @ '' v'' @ str_nat k @ suffix src)"
proof -
  from get_next_version_form [of fs "p @ [name src]"]
  have "d = p @ [name src] \<or> (\<exists>k\<ge>2. d = p @ [new_name (stem src) (suffix src) k])"
    unfolding assms by (cases "path_exists fs (p @ [name src])")
      (auto simp: parent_def stem_snoc suffix_snoc)
  then show "parent d = p"
    and "name d = name src \<or> (\<exists>k\<ge>2. name d = stem src @ '' v'' @ str_nat k @ suffix src)"
    by (auto simp: parent_def name_snoc new_name_def)
qed

lemma cfv_name:
  assumes "copy_file_with_versioning env src dest_folder base fs = (Return d, fs')"
    and "valid_name (name src)"
  shows "parent d = slash base dest_folder"
    and "name d = name src \<or> (\<exists>k\<ge>2. name d = stem src @ '' v'' @ str_nat k @ suffix src)"
proof -
  from cfv_props(2) [OF assms(1) refl] obtain fs1 where
    "d = get_next_version_filename fs1 (slash (slash base dest_folder) (name src))" by blast
  then have d: "d = get_next_version_filename fs1 (slash base dest_folder @ [name src])"
    using assms(2) by (simp add: slash_valid_name)
  from version_name [OF d] show "parent d = slash base dest_folder"
    and "name d = name src \<or> (\<exists>k\<ge>2. name d = stem src @ '' v'' @ str_nat k @ suffix src)"
    by simp_all
qed

text \<open>
  \<open>kept_name (src, dst)\<close>: the name of the destination is the name of the
  source, or that name with \<open>v{k}\<close> put between stem and suffix.
\<close>

definition kept_name :: "path \<times> path \<Rightarrow> bool" where
  "kept_name x =
     (name (snd x) = name (fst x)
      \<or> (\<exists>k\<ge>2. name (snd x) = stem (fst x) @ '' v'' @ str_nat k @ suffix (fst x)))"

lemma try_body_names:
  assumes "valid_name (name src)" and "try_body env cm out src fs = (r, fs', cs)"
  shows "\<forall>x\<in>set cs. fst x = src \<and> kept_name x"
proof (cases rule: try_body_cases [of cm src env out fs])
  case keyerror
  with assms(2) show ?thesis by auto
next
  case (primary_raise dest_folder msg fs1)
  with assms(2) show ?thesis by auto
next
  case (plain dest_folder d1 fs1)
  with assms(2) cfv_name(2) [OF plain(3) assms(1)] show ?thesis
    by (auto simp: kept_name_def)
next
  case (fav_raise dest_folder d1 fs1 msg fs2)
  with assms(2) cfv_name(2) [OF fav_raise(3) assms(1)] show ?thesis
    by (auto simp: kept_name_def)
next
  case (fav_ok dest_folder d1 fs1 d2 fs2)
  with assms(2) cfv_name(2) [OF fav_ok(3) assms(1)] cfv_name(2) [OF fav_ok(4) assms(1)]
  show ?thesis by (auto simp: kept_name_def)
qed

lemma process_file_names:
  assumes "valid_name (name src)"
  shows "\<exists>cs. copies (process_file env cm out src st) = copies st @ cs
           \<and> (\<forall>x\<in>set cs. fst x = src \<and> kept_name x)"
proof -
  obtain r fs' cs where t: "try_body env cm out src (disk st) = (r, fs', cs)"
    by (cases "try_body env cm out src (disk st)")
  have "copies (process_file env cm out src st) = copies st @ cs"
    using t by (cases r) (simp_all add: process_file_def)
  with try_body_names [OF assms t] show ?thesis by blast
qed

lemma process_batch_names:
  assumes "\<forall>f\<in>set files. valid_name (name f)"
  shows "\<exists>cs. copies (process_batch env cm out files st) = copies st @ cs
           \<and> (\<forall>x\<in>set cs. fst x \<in> set files \<and> kept_name x)"
  using assms
proof (induction files arbitrary: st)
  case Nil
  show ?case by simp
next
  case (Cons f files)
  from Cons.prems have "valid_name (name f)" by simp
  from process_file_names [OF this, of env cm out st] obtain cs1 where
    1: "copies (process_file env cm out f st) = copies st @ cs1"
       "\<forall>x\<in>set cs1. fst x = f \<and> kept_name x" by blast
  from Cons.prems have "\<forall>f\<in>set files. valid_name (name f)" by simp
  from Cons.IH [OF this, of "process_file env cm out f st"] obtain cs2 where
    2: "copies (process_batch env cm out files (process_file env cm out f st))
          = copies (process_file env cm out f st) @ cs2"
       "\<forall>x\<in>set cs2. fst x \<in> set files \<and> kept_name x" by blast
  have "copies (process_batch env cm out (f # files) st) = copies st @ (cs1 @ cs2)"
    using 1(1) 2(1) by simp
  moreover have "\<forall>x\<in>set (cs1 @ cs2). fst x \<in> set (f # files) \<and> kept_name x"
    using 1(2) 2(2) by auto
  ultimately show ?case by blast
qed

text \<open>
  C9. No file name is sanitized. When the files have the names of directory
  entries, every copy the copy phase makes is the copy of one of the files, to a
  path whose name is the name of the source unchanged, or that name with
  \<open>v{k}\<close>, \<open>k \<ge> 2\<close>, put between its stem and its suffix. No character of the
  name is replaced: \<open>sanitize_filename\<close> takes no part in the pipeline.
\<close>

theorem names_not_sanitized:
  assumes "\<forall>f\<in>set files. valid_name (name f)"
  shows "\<exists>cs. copies (copy_phase env cm out (batches BATCH_SIZE files) st) = copies st @ cs
     \<and> (\<forall>x\<in>set cs. fst x \<in> set files
           \<and> stem (fst x) @ suffix (fst x) = name (fst x)
           \<and> (name (snd x) = name (fst x)
              \<or> (\<exists>k\<ge>2. name (snd x) = stem (fst x) @ '' v'' @ str_nat k @ suffix (fst x))))"
  using process_batch_names [OF assms, of env cm out st]
  by (simp add: copy_phase_files kept_name_def stem_suffix_name)

lemma classify_all_favorites:
  "favorites_count (classify_all files c)
     = favorites_count c + length (filter (\<lambda>p. is_favorite (name p)) files)"
  by (induction files arbitrary: c) (simp_all add: Let_def split: prod.splits)

lemma refused_mkdir:
  "lookup fs p = None \<Longrightarrow> lookup fs (parent p) = Some Dir \<Longrightarrow>
     mkdir (\<lambda>fs op. Some msg) p fs = (Raise msg, fs)"
  by (simp add: mkdir_None mkdir_Dir)

lemma refused_copy:
  "copy_file_with_versioning (\<lambda>fs op. Some ''Permission denied'')
     [''in'', ''+++Pop Anthem.wav''] ''04_Pop_Mainstream/Pop'' [''in'', ''SORTED_MUSIC'']
     [([''in'', ''+++Pop Anthem.wav''], File ''pop''), ([''in''], Dir)]
   = (Raise ''Permission denied'',
      [([''in'', ''+++Pop Anthem.wav''], File ''pop''), ([''in''], Dir)])"
  by (simp add: fs_eval)

lemma refused_run:
  "sort_music (\<lambda>fs op. Some ''Permission denied'') [[''in'', ''+++Pop Anthem.wav'']] [''in'']
     None [([''in'', ''+++Pop Anthem.wav''], File ''pop''), ([''in''], Dir)]
   = Some (\<lparr>report_stats = ((\<lambda>x. 0)(''04_Pop_Mainstream/Pop'' := 1)),
            report_processed = 0, report_favorites = 1,
            report_errors = [(''+++Pop Anthem.wav'', ''Permission denied'')]\<rparr>,
           \<lparr>disk = [([''in'', ''+++Pop Anthem.wav''], File ''pop''), ([''in''], Dir)],
            processed = 0,
            errors = [(''+++Pop Anthem.wav'', ''Permission denied'')],
            copies = []\<rparr>)"
  by (simp add: sort_music_def copy_phase_files Let_def lower_pop_anthem classify_pop_anthem
      name_def is_favorite_def process_file_def try_body_def refused_copy)

text \<open>
  C10. The favorites count of the final report is the number of files found whose
  name begins with \<open>+++\<close>, whatever the file system holds and whatever the
  operating system refuses: it is fixed by the classification alone. It can
  exceed the number of favorites copies made: when every operation is refused, a
  run on one favorite reports one favorite, no file processed, one error and
  makes no copy at all.
\<close>

theorem favorites_count_ignores_failures:
  "(files \<noteq> [] \<longrightarrow>
      (\<exists>rep st. sort_music env files source_path output_dir fs0 = Some (rep, st)
         \<and> report_favorites rep = length (filter (\<lambda>p. is_favorite (name p)) files)))
   \<and> (\<exists>rep st.
        sort_music (\<lambda>fs op. Some ''Permission denied'') [[''in'', ''+++Pop Anthem.wav'']]
          [''in''] None [([''in'', ''+++Pop Anthem.wav''], File ''pop''), ([''in''], Dir)]
          = Some (rep, st)
        \<and> report_favorites rep = 1 \<and> report_processed rep = 0 \<and> copies st = []
        \<and> report_errors rep = [(''+++Pop Anthem.wav'', ''Permission denied'')])"
proof
  show "files \<noteq> [] \<longrightarrow>
      (\<exists>rep st. sort_music env files source_path output_dir fs0 = Some (rep, st)
         \<and> report_favorites rep = length (filter (\<lambda>p. is_favorite (name p)) files))"
    by (simp add: sort_music_def Let_def classify_all_favorites)
  show "\<exists>rep st.
        sort_music (\<lambda>fs op. Some ''Permission denied'') [[''in'', ''+++Pop Anthem.wav'']]
          [''in''] None [([''in'', ''+++Pop Anthem.wav''], File ''pop''), ([''in''], Dir)]
          = Some (rep, st)
        \<and> report_favorites rep = 1 \<and> report_processed rep = 0 \<and> copies st = []
        \<and> report_errors rep = [(''+++Pop Anthem.wav'', ''Permission denied'')]"
    by (simp add: refused_run)
qed


section \<open>The theorems on concrete runs\<close>

theorem favorites_count_ignores_failures_witness:
  "\<exists>rep st. sort_music (\<lambda>fs op. None) scenario_files [''in''] None scenario_fs = Some (rep, st)
      \<and> report_favorites rep = 1"
proof -
  have ne: "scenario_files \<noteq> []" by (simp add: scenario_files_def)
  have n: "length (filter (\<lambda>p. is_favorite (name p)) scenario_files) = 1"
    by (simp add: scenario_files_def name_def is_favorite_def)
  from favorites_count_ignores_failures [of scenario_files "\<lambda>fs op. None" "[''in'']" None scenario_fs]
    ne n show ?thesis by auto
qed

text \<open>A run in which the copy of the first file is refused.\<close>

definition refuse_techno :: env where
  "refuse_techno fs op =
     (case op of
        Mkdir p \<Rightarrow> None
      | CopyTo s d \<Rightarrow> if s = [''in'', ''Techno Night.wav''] then Some ''Permission denied''
                          else None)"

lemma refused_techno_copy:
  "copy_file_with_versioning refuse_techno [''in'', ''Techno Night.wav'']
     ''01_Electronic_Dance/Techno'' [''out'']
     [([''in'', ''Techno Night.wav''], File ''techno''),
      ([''in'', ''Melodic Dream.wav''], File ''dream''),
      ([''in''], Dir)]
   = (Raise ''Permission denied'',
      [([''out'', ''01_Electronic_Dance'', ''Techno''], Dir),
       ([''out'', ''01_Electronic_Dance''], Dir),
       ([''out''], Dir),
       ([''in'', ''Techno Night.wav''], File ''techno''),
       ([''in'', ''Melodic Dream.wav''], File ''dream''),
       ([''in''], Dir)])"
  by (simp add: fs_eval refuse_techno_def)

lemma refused_techno_next:
  "copy_file_with_versioning refuse_techno [''in'', ''Melodic Dream.wav'']
     ''02_Atmospheric_Electronic/Ethereal'' [''out'']
     [([''out'', ''01_Electronic_Dance'', ''Techno''], Dir),
      ([''out'', ''01_Electronic_Dance''], Dir),
      ([''out''], Dir),
      ([''in'', ''Techno Night.wav''], File ''techno''),
      ([''in'', ''Melodic Dream.wav''], File ''dream''),
      ([''in''], Dir)]
   = (Return [''out'', ''02_Atmospheric_Electronic'', ''Ethereal'', ''Melodic Dream.wav''],
      [([''out'', ''02_Atmospheric_Electronic'', ''Ethereal'', ''Melodic Dream.wav''],
        File ''dream''),
       ([''out'', ''02_Atmospheric_Electronic'', ''Ethereal''], Dir),
       ([''out'', ''02_Atmospheric_Electronic''], Dir),
       ([''out'', ''01_Electronic_Dance'', ''Techno''], Dir),
       ([''out'', ''01_Electronic_Dance''], Dir),
       ([''out''], Dir),
       ([''in'', ''Techno Night.wav''], File ''techno''),
       ([''in'', ''Melodic Dream.wav''], File ''dream''),
       ([''in''], Dir)])"
  by (simp add: fs_eval refuse_techno_def)

theorem copy_failure_isolated_witness:
  "errors (copy_phase refuse_techno
      [[''in'', ''Techno Night.wav''] \<mapsto> ''01_Electronic_Dance/Techno'',
       [''in'', ''Melodic Dream.wav''] \<mapsto> ''02_Atmospheric_Electronic/Ethereal'']
      [''out'']
      (batches BATCH_SIZE [[''in'', ''Techno Night.wav''], [''in'', ''Melodic Dream.wav'']])
      \<lparr>disk = [([''in'', ''Techno Night.wav''], File ''techno''),
               ([''in'', ''Melodic Dream.wav''], File ''dream''),
               ([''in''], Dir)],
       processed = 0, errors = [], copies = []\<rparr>)
     = [(''Techno Night.wav'', ''Permission denied'')]
   \<and> processed (copy_phase refuse_techno
      [[''in'', ''Techno Night.wav''] \<mapsto> ''01_Electronic_Dance/Techno'',
       [''in'', ''Melodic Dream.wav''] \<mapsto> ''02_Atmospheric_Electronic/Ethereal'']
      [''out'']
      (batches BATCH_SIZE [[''in'', ''Techno Night.wav''], [''in'', ''Melodic Dream.wav'']])
      \<lparr>disk = [([''in'', ''Techno Night.wav''], File ''techno''),
               ([''in'', ''Melodic Dream.wav''], File ''dream''),
               ([''in''], Dir)],
       processed = 0, errors = [], copies = []\<rparr>)
     = 1"
proof -
  let ?cm = "[[''in'', ''Techno Night.wav''] \<mapsto> ''01_Electronic_Dance/Techno'',
       [''in'', ''Melodic Dream.wav''] \<mapsto> ''02_Atmospheric_Electronic/Ethereal'']"
  let ?st = "\<lparr>disk = [([''in'', ''Techno Night.wav''], File ''techno''),
               ([''in'', ''Melodic Dream.wav''], File ''dream''),
               ([''in''], Dir)],
       processed = 0, errors = [], copies = []\<rparr>"
  let ?files = "[[''in'', ''Techno Night.wav''], [''in'', ''Melodic Dream.wav'']]"
  have "copy_phase refuse_techno ?cm [''out''] (batches BATCH_SIZE ?files) ?st
      = foldl (\<lambda>s f. process_file refuse_techno ?cm [''out''] f s) ?st ?files"
    using copy_failure_isolated [of refuse_techno ?cm "[''out'']" ?files ?st] by blast
  then show ?thesis
    by (simp add: process_file_def try_body_def name_def is_favorite_def
        refused_techno_copy refused_techno_next)
qed


text \<open>A file whose name has a character that \<open>sanitize_filename\<close> would replace.\<close>

lemma what_copy:
  "copy_file_with_versioning (\<lambda>fs op. None) [''in'', ''What?.wav'']
     ''99_Uncategorized/Other'' [''out'']
     [([''in'', ''What?.wav''], File ''w''), ([''in''], Dir)]
   = (Return [''out'', ''99_Uncategorized'', ''Other'', ''What?.wav''],
      [([''out'', ''99_Uncategorized'', ''Other'', ''What?.wav''], File ''w''),
       ([''out'', ''99_Uncategorized'', ''Other''], Dir),
       ([''out'', ''99_Uncategorized''], Dir),
       ([''out''], Dir),
       ([''in'', ''What?.wav''], File ''w''), ([''in''], Dir)])"
  by (simp add: fs_eval)

lemma what_copies:
  "copies (copy_phase (\<lambda>fs op. None) [[''in'', ''What?.wav''] \<mapsto> ''99_Uncategorized/Other'']
     [''out''] (batches BATCH_SIZE [[''in'', ''What?.wav'']])
     \<lparr>disk = [([''in'', ''What?.wav''], File ''w''), ([''in''], Dir)],
      processed = 0, errors = [], copies = []\<rparr>)
   = [([''in'', ''What?.wav''], [''out'', ''99_Uncategorized'', ''Other'', ''What?.wav''])]"
  by (simp add: copy_phase_files process_file_def try_body_def is_favorite_def name_def what_copy)

theorem names_not_sanitized_witness:
  "sanitize_filename ''What?.wav'' = ''What_.wav''
   \<and> copies (copy_phase (\<lambda>fs op. None) [[''in'', ''What?.wav''] \<mapsto> ''99_Uncategorized/Other'']
       [''out''] (batches BATCH_SIZE [[''in'', ''What?.wav'']])
       \<lparr>disk = [([''in'', ''What?.wav''], File ''w''), ([''in''], Dir)],
        processed = 0, errors = [], copies = []\<rparr>)
     = [([''in'', ''What?.wav''], [''out'', ''99_Uncategorized'', ''Other'', ''What?.wav''])]
   \<and> (name [''out'', ''99_Uncategorized'', ''Other'', ''What?.wav''] = name [''in'', ''What?.wav'']
      \<or> (\<exists>k\<ge>2. name [''out'', ''99_Uncategorized'', ''Other'', ''What?.wav'']
             = stem [''in'', ''What?.wav''] @ '' v'' @ str_nat k @ suffix [''in'', ''What?.wav'']))"
proof -
  let ?files = "[[''in'', ''What?.wav'']]"
  have h: "\<forall>f\<in>set ?files. valid_name (name f)" by (simp add: name_def valid_name_def)
  from names_not_sanitized [OF h, of "\<lambda>fs op. None"
      "[[''in'', ''What?.wav''] \<mapsto> ''99_Uncategorized/Other'']" "[''out'']"
      "\<lparr>disk = [([''in'', ''What?.wav''], File ''w''), ([''in''], Dir)],
        processed = 0, errors = [], copies = []\<rparr>"]
  have "name [''out'', ''99_Uncategorized'', ''Other'', ''What?.wav''] = name [''in'', ''What?.wav'']
      \<or> (\<exists>k\<ge>2. name [''out'', ''99_Uncategorized'', ''Other'', ''What?.wav'']
             = stem [''in'', ''What?.wav''] @ '' v'' @ str_nat k @ suffix [''in'', ''What?.wav''])"
    unfolding what_copies by auto
  moreover have "sanitize_filename ''What?.wav'' = ''What_.wav''"
    by (simp add: sanitize_filename_def)
  ultimately show ?thesis using what_copies by blast
qed


section \<open>Collisions\<close>

text \<open>The folder path and the paths above it, from the anchor down.\<close>

fun path_prefixes :: "path \<Rightarrow> path list" where
  "path_prefixes [] = [[]]"
| "path_prefixes (x # xs) = [] # map ((#) x) (path_prefixes xs)"

text \<open>
  \<open>clear_way fs p\<close>: no file stands where the folder \<open>p\<close> or a folder above it
  has to be.
\<close>

definition clear_way :: "filesystem \<Rightarrow> path \<Rightarrow> bool" where
  "clear_way fs p = (\<forall>q\<in>set (path_prefixes p). \<forall>c. lookup fs q \<noteq> Some (File c))"

lemma in_path_prefixes: "q \<in> set (path_prefixes p) \<longleftrightarrow> (\<exists>r. p = q @ r)"
proof (induction p arbitrary: q)
  case Nil
  show ?case by auto
next
  case (Cons x xs)
  show ?case
  proof (cases q)
    case Nil
    then show ?thesis by simp
  next
    case (Cons y ys)
    have "y # ys \<in> (#) x ` set (path_prefixes xs) \<longleftrightarrow> (y = x \<and> ys \<in> set (path_prefixes xs))"
      by auto
    then show ?thesis using Cons by (auto simp: Cons.IH)
  qed
qed

lemma self_path_prefixes: "p \<in> set (path_prefixes p)"
  by (simp add: in_path_prefixes)

lemma parent_path_prefixes: "set (path_prefixes (parent p)) \<subseteq> set (path_prefixes p)"
proof
  fix q assume "q \<in> set (path_prefixes (parent p))"
  then obtain r where r: "butlast p = q @ r" by (auto simp: in_path_prefixes parent_def)
  show "q \<in> set (path_prefixes p)"
  proof (cases "p = []")
    case True
    with r show ?thesis by (simp add: in_path_prefixes)
  next
    case False
    then have "p = butlast p @ [last p]" by simp
    with r have "p = q @ (r @ [last p])" by simp
    then show ?thesis unfolding in_path_prefixes by blast
  qed
qed

lemma clear_way_parent: "clear_way fs p \<Longrightarrow> clear_way fs (parent p)"
  using parent_path_prefixes [of p] by (auto simp: clear_way_def)

lemma clear_way_self: "clear_way fs p \<Longrightarrow> lookup fs p \<noteq> Some (File c)"
  using self_path_prefixes [of p] by (auto simp: clear_way_def)

lemma mkdir_returns:
  "(\<forall>fs' q. env fs' (Mkdir q) = None) \<Longrightarrow> clear_way fs p \<Longrightarrow>
     \<exists>fs'. mkdir env p fs = (Return (), fs')"
proof (induction env p fs rule: mkdir.induct)
  case (1 env p fs)
  show ?case
  proof (cases "lookup fs p")
    case None
    from "1.IH" [OF None "1.prems"(1) clear_way_parent [OF "1.prems"(2)]]
    obtain fs0 where "mkdir env (parent p) fs = (Return (), fs0)" by blast
    then show ?thesis using None "1.prems"(1) by (simp add: mkdir_None)
  next
    case (Some n)
    then show ?thesis using clear_way_self [OF "1.prems"(2)]
      by (cases n) (auto simp: mkdir_Dir)
  qed
qed

lemma mkdir_frame:
  "mkdir env p fs = (r, fs') \<Longrightarrow> length p < length q \<Longrightarrow> lookup fs' q = lookup fs q"
proof (induction env p fs arbitrary: r fs' rule: mkdir.induct)
  case (1 env p fs)
  show ?case
  proof (cases "lookup fs p")
    case (Some n)
    then show ?thesis using "1.prems"(1) by (cases n) (auto simp: mkdir_Dir mkdir_File)
  next
    case None
    obtain r0 fs0 where m0: "mkdir env (parent p) fs = (r0, fs0)" by (cases "mkdir env (parent p) fs")
    have "length (parent p) < length q" using "1.prems"(2) by (simp add: parent_def)
    from "1.IH" [OF None m0 this] have ih: "lookup fs0 q = lookup fs q" .
    from "1.prems"(1) None m0 have "fs' = fs0 \<or> fs' = (p, Dir) # fs0"
      by (auto simp: mkdir_None split: result.splits option.splits)
    moreover have "q \<noteq> p" using "1.prems"(2) by auto
    ultimately show ?thesis using ih by (auto simp: lookup_def)
  qed
qed

lemma version_loop_cong:
  "(\<forall>x. path_exists fs (par @ [x]) = path_exists fs' (par @ [x])) \<Longrightarrow>
     version_loop fs par stm suf counter = version_loop fs' par stm suf counter"
proof (induction fs par stm suf counter rule: version_loop.induct)
  case (1 fs par stm suf counter)
  show ?case
  proof (cases "path_exists fs (par @ [new_name stm suf counter])")
    case False
    with "1.prems" show ?thesis by (simp add: version_loop_stop)
  next
    case True
    with "1.prems" have "path_exists fs' (par @ [new_name stm suf counter])" by simp
    with True "1.IH" "1.prems" show ?thesis by (simp add: version_loop_next)
  qed
qed

lemma get_next_version_cong:
  assumes "\<forall>x. path_exists fs (par @ [x]) = path_exists fs' (par @ [x])"
  shows "get_next_version_filename fs (par @ [nm]) = get_next_version_filename fs' (par @ [nm])"
  using assms version_loop_cong [OF assms]
  by (simp add: get_next_version_filename_def parent_def)

lemma get_next_version_first_free:
  "(\<not> path_exists fs p \<longrightarrow> get_next_version_filename fs p = p)
   \<and> (path_exists fs p \<longrightarrow>
        (\<exists>k\<ge>2. get_next_version_filename fs p = parent p @ [new_name (stem p) (suffix p) k]
           \<and> (\<forall>m. 2 \<le> m \<and> m < k \<longrightarrow>
                 path_exists fs (parent p @ [new_name (stem p) (suffix p) m]))))"
proof (cases "path_exists fs p")
  case False
  then show ?thesis by (simp add: get_next_version_filename_def)
next
  case True
  with version_loop_spec [of 2 fs "parent p" "stem p" "suffix p"] show ?thesis
    by (auto simp: get_next_version_filename_def)
qed

lemma cfv_dest:
  assumes "copy_file_with_versioning env src dest_folder base fs = (Return d, fs')"
    and "valid_name (name src)"
  shows "d = get_next_version_filename fs (slash base dest_folder @ [name src])"
proof -
  from cfv_props(2) [OF assms(1) refl] obtain fs1 where
    m: "mkdir env (slash base dest_folder) fs = (Return (), fs1)"
    and d: "d = get_next_version_filename fs1 (slash (slash base dest_folder) (name src))"
    by blast
  have "\<forall>x. path_exists fs1 (slash base dest_folder @ [x])
            = path_exists fs (slash base dest_folder @ [x])"
    using mkdir_frame [OF m] by (simp add: path_exists_def)
  from get_next_version_cong [OF this] d assms(2) show ?thesis
    by (simp add: slash_valid_name)
qed

lemma cfv_returns:
  assumes "valid_name (name src)" and "lookup fs src = Some (File c)"
    and "\<forall>fs' op. env fs' op = None"
    and "clear_way fs (slash base dest_folder)"
  shows "\<exists>fs1. mkdir env (slash base dest_folder) fs = (Return (), fs1)
           \<and> copy_file_with_versioning env src dest_folder base fs
               = (Return (get_next_version_filename fs (slash base dest_folder @ [name src])),
                  (get_next_version_filename fs (slash base dest_folder @ [name src]), File c)
                    # fs1)"
proof -
  let ?folder = "slash base dest_folder"
  from mkdir_returns [OF _ assms(4), of env] assms(3) obtain fs1 where
    m: "mkdir env ?folder fs = (Return (), fs1)" by auto
  from mkdir_props [OF m] have p: "preserves fs fs1" and dir: "lookup fs1 ?folder = Some Dir"
    by simp_all
  let ?d = "get_next_version_filename fs1 (?folder @ [name src])"
  have "\<forall>x. path_exists fs1 (?folder @ [x]) = path_exists fs (?folder @ [x])"
    using mkdir_frame [OF m] by (simp add: path_exists_def)
  from get_next_version_cong [OF this]
  have d: "?d = get_next_version_filename fs (?folder @ [name src])" .
  have free: "lookup fs1 ?d = None"
    using get_next_version_free [of fs1 "?folder @ [name src]"] by (simp add: path_exists_def)
  have src: "lookup fs1 src = Some (File c)" using p assms(2) by (simp add: preserves_def)
  have par: "parent ?d = ?folder" using version_name(1) [OF refl] .
  have ne: "?d \<noteq> src" using free src by auto
  have "copy2 env src ?d fs1 = (Return (), (?d, File c) # fs1)"
    using free src par dir ne assms(3) by (simp add: copy2_def)
  then have "copy_file_with_versioning env src dest_folder base fs
               = (Return ?d, (?d, File c) # fs1)"
    using m assms(1) by (simp add: copy_file_with_versioning_def slash_valid_name Let_def)
  with m d show ?thesis by auto
qed


text \<open>
  C7. Copying never overwrites, and a collision gets the next version. A call of
  \<open>copy_file_with_versioning\<close>, whether it returns or raises, leaves every
  existing path as the same directory or the same file content; when it returns,
  the path it copied to did not exist before, and it is the desired path if that
  was free, else the sibling \<open>{stem} v{k}{suffix}\<close> for the first \<open>k \<ge> 2\<close> whose
  sibling is free. It does return, with the content of the source at that path,
  whenever the operating system refuses nothing, the source is a file with the
  name of a directory entry, and no file stands where the folder has to be: a
  collision is then never an error. For the whole copy phase, started on any file
  system: every path that existed before is unchanged after, the copies went to
  pairwise different paths, and none of these paths existed before.
\<close>

theorem copy_never_overwrites:
  "(copy_file_with_versioning env src dest_folder base fs0 = (r, fs1) \<longrightarrow>
      (\<forall>p n. lookup fs0 p = Some n \<longrightarrow> lookup fs1 p = Some n)
      \<and> (\<forall>d. r = Return d \<longrightarrow>
            \<not> path_exists fs0 d \<and> path_exists fs1 d
            \<and> (\<exists>fs. mkdir env (slash base dest_folder) fs0 = (Return (), fs)
                 \<and> (let desired = slash (slash base dest_folder) (name src)
                     in if path_exists fs desired
                        then \<exists>k\<ge>2. d = parent desired
                                @ [stem desired @ '' v'' @ str_nat k @ suffix desired]
                              \<and> (\<forall>m. 2 \<le> m \<and> m < k \<longrightarrow>
                                    path_exists fs (parent desired
                                      @ [stem desired @ '' v'' @ str_nat m @ suffix desired]))
                        else d = desired))))
   \<and> (valid_name (name src) \<and> lookup fs0 src = Some (File c)
        \<and> (\<forall>fs op. env fs op = None) \<and> clear_way fs0 (slash base dest_folder) \<longrightarrow>
        (\<exists>fs d. copy_file_with_versioning env src dest_folder base fs0
                   = (Return d, (d, File c) # fs)
           \<and> \<not> path_exists fs0 d
           \<and> (let desired = slash base dest_folder @ [name src]
               in if path_exists fs0 desired
                  then \<exists>k\<ge>2. d = parent desired
                          @ [stem desired @ '' v'' @ str_nat k @ suffix desired]
                        \<and> (\<forall>m. 2 \<le> m \<and> m < k \<longrightarrow>
                              path_exists fs0 (parent desired
                                @ [stem desired @ '' v'' @ str_nat m @ suffix desired]))
                  else d = desired)))
   \<and> (let st' = copy_phase env cm out (batches BATCH_SIZE files) st
      in (\<forall>p n. lookup (disk st) p = Some n \<longrightarrow> lookup (disk st') p = Some n)
         \<and> (\<exists>cs. copies st' = copies st @ cs \<and> distinct (map snd cs)
               \<and> (\<forall>x\<in>set cs. \<not> path_exists (disk st) (snd x)
                                \<and> path_exists (disk st') (snd x))))"
proof -
  have a: "(\<forall>p n. lookup fs0 p = Some n \<longrightarrow> lookup fs1 p = Some n)
      \<and> (\<forall>d. r = Return d \<longrightarrow>
            \<not> path_exists fs0 d \<and> path_exists fs1 d
            \<and> (\<exists>fs. mkdir env (slash base dest_folder) fs0 = (Return (), fs)
                 \<and> (let desired = slash (slash base dest_folder) (name src)
                     in if path_exists fs desired
                        then \<exists>k\<ge>2. d = parent desired
                                @ [stem desired @ '' v'' @ str_nat k @ suffix desired]
                              \<and> (\<forall>m. 2 \<le> m \<and> m < k \<longrightarrow>
                                    path_exists fs (parent desired
                                      @ [stem desired @ '' v'' @ str_nat m @ suffix desired]))
                        else d = desired)))"
    if c: "copy_file_with_versioning env src dest_folder base fs0 = (r, fs1)"
  proof (intro conjI allI impI)
    fix p n assume "lookup fs0 p = Some n"
    with cfv_props(1) [OF c] show "lookup fs1 p = Some n" by (simp add: preserves_def)
  next
    fix d assume r: "r = Return d"
    with c have c': "copy_file_with_versioning env src dest_folder base fs0 = (Return d, fs1)"
      by simp
    from cfv_return [OF c'] show "\<not> path_exists fs0 d" "path_exists fs1 d" by simp_all
    from cfv_props(2) [OF c r] obtain fs where
      m: "mkdir env (slash base dest_folder) fs0 = (Return (), fs)"
      and d: "d = get_next_version_filename fs (slash (slash base dest_folder) (name src))"
      by blast
    show "\<exists>fs. mkdir env (slash base dest_folder) fs0 = (Return (), fs)
                 \<and> (let desired = slash (slash base dest_folder) (name src)
                     in if path_exists fs desired
                        then \<exists>k\<ge>2. d = parent desired
                                @ [stem desired @ '' v'' @ str_nat k @ suffix desired]
                              \<and> (\<forall>m. 2 \<le> m \<and> m < k \<longrightarrow>
                                    path_exists fs (parent desired
                                      @ [stem desired @ '' v'' @ str_nat m @ suffix desired]))
                        else d = desired)"
      using m d
        get_next_version_first_free [of fs "slash (slash base dest_folder) (name src)"]
      by (intro exI [of _ fs]) (auto simp: Let_def new_name_def)
  qed
  have b: "\<exists>fs d. copy_file_with_versioning env src dest_folder base fs0
                   = (Return d, (d, File c) # fs)
           \<and> \<not> path_exists fs0 d
           \<and> (let desired = slash base dest_folder @ [name src]
               in if path_exists fs0 desired
                  then \<exists>k\<ge>2. d = parent desired
                          @ [stem desired @ '' v'' @ str_nat k @ suffix desired]
                        \<and> (\<forall>m. 2 \<le> m \<and> m < k \<longrightarrow>
                              path_exists fs0 (parent desired
                                @ [stem desired @ '' v'' @ str_nat m @ suffix desired]))
                  else d = desired)"
    if h: "valid_name (name src)" "lookup fs0 src = Some (File c)"
      "\<forall>fs op. env fs op = None" "clear_way fs0 (slash base dest_folder)"
  proof -
    let ?desired = "slash base dest_folder @ [name src]"
    let ?d = "get_next_version_filename fs0 ?desired"
    from cfv_returns [OF h] obtain fs where
      "copy_file_with_versioning env src dest_folder base fs0 = (Return ?d, (?d, File c) # fs)"
      by blast
    moreover have "\<not> path_exists fs0 ?d" by (rule get_next_version_free)
    moreover have "let desired = ?desired
               in if path_exists fs0 desired
                  then \<exists>k\<ge>2. ?d = parent desired
                          @ [stem desired @ '' v'' @ str_nat k @ suffix desired]
                        \<and> (\<forall>m. 2 \<le> m \<and> m < k \<longrightarrow>
                              path_exists fs0 (parent desired
                                @ [stem desired @ '' v'' @ str_nat m @ suffix desired]))
                  else ?d = desired"
      using get_next_version_first_free [of fs0 ?desired]
      by (auto simp: Let_def new_name_def)
    ultimately show ?thesis by blast
  qed
  have "segment st (copy_phase env cm out (batches BATCH_SIZE files) st)"
    by (simp add: copy_phase_files process_batch_segment)
  then have c: "let st' = copy_phase env cm out (batches BATCH_SIZE files) st
      in (\<forall>p n. lookup (disk st) p = Some n \<longrightarrow> lookup (disk st') p = Some n)
         \<and> (\<exists>cs. copies st' = copies st @ cs \<and> distinct (map snd cs)
               \<and> (\<forall>x\<in>set cs. \<not> path_exists (disk st) (snd x)
                                \<and> path_exists (disk st') (snd x)))"
    by (simp add: segment_def preserves_def Let_def)
  from a b c show ?thesis by blast
qed


text \<open>
  A later run: the folder already holds \<open>Track.wav\<close> and \<open>Track v2.wav\<close> of
  earlier runs.
\<close>

definition rerun_fs :: filesystem where
  "rerun_fs =
     [([''out'', ''99_Uncategorized'', ''Other'', ''Track v2.wav''], File ''second''),
      ([''out'', ''99_Uncategorized'', ''Other'', ''Track.wav''], File ''first''),
      ([''out'', ''99_Uncategorized'', ''Other''], Dir),
      ([''out'', ''99_Uncategorized''], Dir),
      ([''out''], Dir),
      ([''in'', ''Track.wav''], File ''third''),
      ([''in''], Dir)]"

theorem copy_never_overwrites_witness:
  "fst (copy_file_with_versioning (\<lambda>fs op. None) [''in'', ''Track.wav'']
          ''99_Uncategorized/Other'' [''out''] rerun_fs)
     = Return [''out'', ''99_Uncategorized'', ''Other'', ''Track v3.wav'']
   \<and> lookup (snd (copy_file_with_versioning (\<lambda>fs op. None) [''in'', ''Track.wav'']
          ''99_Uncategorized/Other'' [''out''] rerun_fs))
       [''out'', ''99_Uncategorized'', ''Other'', ''Track v3.wav''] = Some (File ''third'')
   \<and> lookup (snd (copy_file_with_versioning (\<lambda>fs op. None) [''in'', ''Track.wav'']
          ''99_Uncategorized/Other'' [''out''] rerun_fs))
       [''out'', ''99_Uncategorized'', ''Other'', ''Track v2.wav''] = Some (File ''second'')
   \<and> lookup (snd (copy_file_with_versioning (\<lambda>fs op. None) [''in'', ''Track.wav'']
          ''99_Uncategorized/Other'' [''out''] rerun_fs))
       [''out'', ''99_Uncategorized'', ''Other'', ''Track.wav''] = Some (File ''first'')"
proof -
  let ?env = "\<lambda>(fs :: filesystem) (op :: fsop). None :: string option"
  let ?src = "[''in'', ''Track.wav'']"
  let ?folder = "''99_Uncategorized/Other''"
  let ?p1 = "[''out'', ''99_Uncategorized'', ''Other'', ''Track.wav'']"
  let ?p2 = "[''out'', ''99_Uncategorized'', ''Other'', ''Track v2.wav'']"
  let ?p3 = "[''out'', ''99_Uncategorized'', ''Other'', ''Track v3.wav'']"
  have h1: "valid_name (name ?src)" by (simp add: name_def valid_name_def)
  have h2: "lookup rerun_fs ?src = Some (File ''third'')" by (simp add: rerun_fs_def lookup_def)
  have h3: "\<forall>fs op. ?env fs op = None" by simp
  have h4: "clear_way rerun_fs (slash [''out''] ?folder)"
    by (simp add: clear_way_def slash_def components_def rerun_fs_def lookup_def)
  have desired: "slash [''out''] ?folder @ [name ?src] = ?p1"
    by (simp add: slash_def components_def name_def)
  have c2: "parent ?p1 @ [stem ?p1 @ '' v'' @ str_nat 2 @ suffix ?p1] = ?p2"
    by (simp add: path_eval str_nat_digit digit_char_def char_of_def bit_iff_odd)
  have c3: "parent ?p1 @ [stem ?p1 @ '' v'' @ str_nat 3 @ suffix ?p1] = ?p3"
    by (simp add: path_eval str_nat_digit digit_char_def char_of_def bit_iff_odd)
  have e1: "path_exists rerun_fs ?p1" and e2: "path_exists rerun_fs ?p2"
    and e3: "\<not> path_exists rerun_fs ?p3"
    by (simp_all add: rerun_fs_def path_exists_def lookup_def)
  from copy_never_overwrites [of ?env ?src ?folder "[''out'']" rerun_fs _ _ "''third''"]
    h1 h2 h3 h4
  obtain fs d where c: "copy_file_with_versioning ?env ?src ?folder [''out''] rerun_fs
      = (Return d, (d, File ''third'') # fs)"
    and free: "\<not> path_exists rerun_fs d"
    and form: "let desired = slash [''out''] ?folder @ [name ?src]
               in if path_exists rerun_fs desired
                  then \<exists>k\<ge>2. d = parent desired
                          @ [stem desired @ '' v'' @ str_nat k @ suffix desired]
                        \<and> (\<forall>m. 2 \<le> m \<and> m < k \<longrightarrow>
                              path_exists rerun_fs (parent desired
                                @ [stem desired @ '' v'' @ str_nat m @ suffix desired]))
                  else d = desired"
    by blast
  from form e1 obtain k where k: "2 \<le> k"
    "d = parent ?p1 @ [stem ?p1 @ '' v'' @ str_nat k @ suffix ?p1]"
    "\<forall>m. 2 \<le> m \<and> m < k \<longrightarrow>
       path_exists rerun_fs (parent ?p1 @ [stem ?p1 @ '' v'' @ str_nat m @ suffix ?p1])"
    unfolding desired Let_def by auto
  have "k \<noteq> 2" using free k(2) c2 e2 by auto
  moreover have "\<not> 3 < k"
  proof
    assume "3 < k"
    with k(3) have "path_exists rerun_fs (parent ?p1 @ [stem ?p1 @ '' v'' @ str_nat 3 @ suffix ?p1])"
      by simp
    with c3 e3 show False by simp
  qed
  ultimately have "k = 3" using k(1) by simp
  with k(2) c3 have d: "d = ?p3" by simp
  from copy_never_overwrites [of ?env ?src ?folder "[''out'']" rerun_fs "Return d"
      "(d, File ''third'') # fs"] c
  have keep: "\<forall>p n. lookup rerun_fs p = Some n \<longrightarrow> lookup ((d, File ''third'') # fs) p = Some n"
    by blast
  have "lookup rerun_fs ?p1 = Some (File ''first'')" "lookup rerun_fs ?p2 = Some (File ''second'')"
    by (simp_all add: rerun_fs_def lookup_def)
  with keep have "lookup ((d, File ''third'') # fs) ?p1 = Some (File ''first'')"
    "lookup ((d, File ''third'') # fs) ?p2 = Some (File ''second'')" by blast+
  moreover have "lookup ((d, File ''third'') # fs) ?p3 = Some (File ''third'')"
    using d by (simp add: lookup_def)
  ultimately show ?thesis using c d by simp
qed


section \<open>Favorites\<close>

lemma split_on_nonempty: "split_on c s \<noteq> []"
  by (induction s) (auto split: list.splits)

lemma split_on_append: "split_on c (a @ c # b) = split_on c a @ split_on c b"
proof (induction a)
  case Nil
  show ?case by simp
next
  case (Cons x a)
  show ?case using Cons.IH split_on_nonempty [of c a]
    by (cases "split_on c a") auto
qed

lemma components_append: "components (a @ CHR ''/'' # b) = components a @ components b"
  by (simp add: components_def split_on_append)

lemma slash_favorites:
  "slash out (dest_folder @ ''/'' @ FAVORITES_SUBFOLDER) = slash out dest_folder @ [''_FAVORITES'']"
proof -
  have "components FAVORITES_SUBFOLDER = [''_FAVORITES'']"
    by (simp add: components_def FAVORITES_SUBFOLDER_def)
  moreover have "dest_folder @ ''/'' @ FAVORITES_SUBFOLDER = dest_folder @ CHR ''/'' # FAVORITES_SUBFOLDER"
    by simp
  ultimately show ?thesis by (simp only: slash_def components_append append_assoc)
qed

lemma favorite_names:
  assumes "is_favorite (name src)"
  shows "name src \<noteq> ''_FAVORITES''"
    and "stem src @ '' v'' @ str_nat k @ suffix src \<noteq> ''_FAVORITES''"
proof -
  from assms obtain rest where n: "name src = ''+++'' @ rest"
    by (auto simp: is_favorite_def startswith_iff)
  then show "name src \<noteq> ''_FAVORITES''" by auto
  define i where "i = rfind (name src) CHR ''.''"
  have "\<exists>t. stem src = CHR ''+'' # t"
  proof (cases "0 < i \<and> i < int (length (name src)) - 1")
    case True
    then have "stem src = take (nat i) (name src)" and "0 < nat i"
      by (simp_all add: stem_def Let_def i_def)
    then show ?thesis using n by (simp add: take_Cons')
  next
    case False
    then have "stem src = name src" by (auto simp: stem_def Let_def i_def)
    then show ?thesis using n by simp
  qed
  then obtain t where "stem src = CHR ''+'' # t" by blast
  then show "stem src @ '' v'' @ str_nat k @ suffix src \<noteq> ''_FAVORITES''" by auto
qed

lemma get_next_version_length:
  "length (get_next_version_filename fs (par @ [nm])) = length par + 1"
  using get_next_version_first_free [of fs "par @ [nm]"]
  by (cases "path_exists fs (par @ [nm])") (auto simp: parent_def)

lemma favorites_copy_dest:
  assumes c1: "copy_file_with_versioning env src dest_folder out fs = (Return d1, fs1)"
    and c2: "copy_file_with_versioning env src (dest_folder @ ''/'' @ FAVORITES_SUBFOLDER) out fs1
               = (Return d2, fs2)"
    and vn: "valid_name (name src)"
  shows "d2 = get_next_version_filename fs
                (slash out (dest_folder @ ''/'' @ FAVORITES_SUBFOLDER) @ [name src])"
proof -
  let ?folder = "slash out dest_folder"
  let ?favf = "slash out (dest_folder @ ''/'' @ FAVORITES_SUBFOLDER)"
  have favf: "?favf = ?folder @ [''_FAVORITES'']" by (rule slash_favorites)
  from cfv_props(2) [OF c1 refl] obtain fsa c where
    m: "mkdir env ?folder fs = (Return (), fsa)" and f1: "fs1 = (d1, File c) # fsa" by blast
  have d1: "d1 = get_next_version_filename fs (?folder @ [name src])"
    using c1 vn by (rule cfv_dest)
  have l1: "length d1 = length ?folder + 1" unfolding d1 by (rule get_next_version_length)
  have "\<forall>x. path_exists fs1 (?favf @ [x]) = path_exists fs (?favf @ [x])"
  proof
    fix x
    have "?favf @ [x] \<noteq> d1" using l1 favf by auto
    then have "lookup fs1 (?favf @ [x]) = lookup fsa (?favf @ [x])"
      unfolding f1 by (simp add: lookup_def)
    also have "\<dots> = lookup fs (?favf @ [x])"
    proof (rule mkdir_frame [OF m])
      show "length ?folder < length (?favf @ [x])" unfolding favf by simp
    qed
    finally show "path_exists fs1 (?favf @ [x]) = path_exists fs (?favf @ [x])"
      by (simp add: path_exists_def)
  qed
  from get_next_version_cong [OF this] cfv_dest [OF c2 vn] show ?thesis by simp
qed

lemma favorite_two_copies:
  assumes "is_favorite (name src)" and vn: "valid_name (name src)"
    and "cm src = Some dest_folder"
    and t: "try_body env cm out src fs = (Return (), fs2, cs)"
  shows "cs = [(src, get_next_version_filename fs (slash out dest_folder @ [name src])),
               (src, get_next_version_filename fs
                  (slash out (dest_folder @ ''/'' @ FAVORITES_SUBFOLDER) @ [name src]))]"
    and "preserves fs fs2"
    and "\<exists>c. lookup fs src = Some (File c) \<and> lookup fs2 src = Some (File c)
           \<and> lookup fs2 (get_next_version_filename fs (slash out dest_folder @ [name src]))
               = Some (File c)
           \<and> lookup fs2 (get_next_version_filename fs
                  (slash out (dest_folder @ ''/'' @ FAVORITES_SUBFOLDER) @ [name src]))
               = Some (File c)"
proof -
  from t assms(1,3) obtain d1 fs1 d2 where
    c1: "copy_file_with_versioning env src dest_folder out fs = (Return d1, fs1)"
    and c2: "copy_file_with_versioning env src (dest_folder @ ''/'' @ FAVORITES_SUBFOLDER) out fs1
               = (Return d2, fs2)"
    and cs: "cs = [(src, d1), (src, d2)]"
    by (cases rule: try_body_cases [of cm src env out fs]) auto
  have d1: "d1 = get_next_version_filename fs (slash out dest_folder @ [name src])"
    using c1 vn by (rule cfv_dest)
  have d2: "d2 = get_next_version_filename fs
                (slash out (dest_folder @ ''/'' @ FAVORITES_SUBFOLDER) @ [name src])"
    using c1 c2 vn by (rule favorites_copy_dest)
  note a = cfv_return [OF c1] and b = cfv_return [OF c2]
  show "cs = [(src, get_next_version_filename fs (slash out dest_folder @ [name src])),
               (src, get_next_version_filename fs
                  (slash out (dest_folder @ ''/'' @ FAVORITES_SUBFOLDER) @ [name src]))]"
    using cs d1 d2 by simp
  show "preserves fs fs2" using a(3) b(3) by (rule preserves_trans)
  from a(4) obtain c where s0: "lookup fs src = Some (File c)"
    and l1: "lookup fs1 d1 = Some (File c)" by blast
  from a(3) s0 have s1: "lookup fs1 src = Some (File c)" by (simp add: preserves_def)
  from b(4) s1 have l2: "lookup fs2 d2 = Some (File c)" by auto
  from b(3) s1 l1 have "lookup fs2 src = Some (File c)" "lookup fs2 d1 = Some (File c)"
    by (simp_all add: preserves_def)
  with s0 l2 show "\<exists>c. lookup fs src = Some (File c) \<and> lookup fs2 src = Some (File c)
           \<and> lookup fs2 (get_next_version_filename fs (slash out dest_folder @ [name src]))
               = Some (File c)
           \<and> lookup fs2 (get_next_version_filename fs
                  (slash out (dest_folder @ ''/'' @ FAVORITES_SUBFOLDER) @ [name src]))
               = Some (File c)"
    unfolding d1 [symmetric] d2 [symmetric] by blast
qed

lemma favorite_no_exception:
  assumes fav: "is_favorite (name src)" and vn: "valid_name (name src)"
    and cm: "cm src = Some dest_folder"
    and env: "\<forall>fs op. env fs op = None"
    and src: "lookup fs src = Some (File c)"
    and way: "clear_way fs (slash out (dest_folder @ ''/'' @ FAVORITES_SUBFOLDER))"
  shows "\<exists>fs2 cs. try_body env cm out src fs = (Return (), fs2, cs)"
proof -
  let ?folder = "slash out dest_folder"
  let ?favf = "slash out (dest_folder @ ''/'' @ FAVORITES_SUBFOLDER)"
  let ?d1 = "get_next_version_filename fs (?folder @ [name src])"
  have favf: "?favf = ?folder @ [''_FAVORITES'']" by (rule slash_favorites)
  have "clear_way fs (parent ?favf)" using way by (rule clear_way_parent)
  then have way1: "clear_way fs ?folder" unfolding favf parent_def by simp
  from cfv_returns [OF vn src env way1] obtain fsa where
    m: "mkdir env ?folder fs = (Return (), fsa)"
    and c1: "copy_file_with_versioning env src dest_folder out fs
               = (Return ?d1, (?d1, File c) # fsa)" by blast
  let ?fs1 = "(?d1, File c) # fsa"
  note a = cfv_return [OF c1]
  have src1: "lookup ?fs1 src = Some (File c)" using a(3) src by (simp add: preserves_def)
  have "name ?d1 \<noteq> ''_FAVORITES''"
    using version_name(2) [OF refl, of fs ?folder src] favorite_names [OF fav] by auto
  moreover have "name ?favf = ''_FAVORITES''" unfolding favf by (rule name_snoc)
  ultimately have ne: "?d1 \<noteq> ?favf" by metis
  have l1: "length ?d1 = length ?folder + 1" by (rule get_next_version_length)
  have way2: "clear_way ?fs1 ?favf"
    unfolding clear_way_def
  proof (intro ballI allI)
    fix q c' assume q: "q \<in> set (path_prefixes ?favf)"
    show "lookup ?fs1 q \<noteq> Some (File c')"
    proof
      assume f: "lookup ?fs1 q = Some (File c')"
      from q obtain r where r: "?favf = q @ r" by (auto simp: in_path_prefixes)
      have "q \<noteq> ?d1"
      proof
        assume "q = ?d1"
        have "length ?favf = length ?folder + 1" unfolding favf by simp
        moreover have "length ?favf = length q + length r" using r by (metis length_append)
        ultimately have "length r = 0" using l1 \<open>q = ?d1\<close> by simp
        with r \<open>q = ?d1\<close> ne show False by simp
      qed
      with f have "lookup fsa q = Some (File c')" by (auto simp: lookup_def split: if_splits)
      from mkdir_files [OF m this] way q show False by (auto simp: clear_way_def)
    qed
  qed
  from cfv_returns [OF vn src1 env way2] obtain d2 fs2 where
    c2: "copy_file_with_versioning env src (dest_folder @ ''/'' @ FAVORITES_SUBFOLDER) out ?fs1
           = (Return d2, fs2)" by blast
  show ?thesis using cm fav c1 c2 by (simp add: try_body_def Let_def)
qed


text \<open>
  C5, as stated, fails when the operating system refuses the copy: the file is a
  favorite, one error is recorded and no copy is made.
\<close>

theorem favorite_refused_counterexample:
  "is_favorite (name [''in'', ''+++Pop Anthem.wav''])
   \<and> copies (process_file (\<lambda>fs op. Some ''Permission denied'')
        [[''in'', ''+++Pop Anthem.wav''] \<mapsto> ''04_Pop_Mainstream/Pop'']
        [''in'', ''SORTED_MUSIC''] [''in'', ''+++Pop Anthem.wav'']
        \<lparr>disk = [([''in'', ''+++Pop Anthem.wav''], File ''pop''), ([''in''], Dir)],
         processed = 0, errors = [], copies = []\<rparr>) = []
   \<and> errors (process_file (\<lambda>fs op. Some ''Permission denied'')
        [[''in'', ''+++Pop Anthem.wav''] \<mapsto> ''04_Pop_Mainstream/Pop'']
        [''in'', ''SORTED_MUSIC''] [''in'', ''+++Pop Anthem.wav'']
        \<lparr>disk = [([''in'', ''+++Pop Anthem.wav''], File ''pop''), ([''in''], Dir)],
         processed = 0, errors = [], copies = []\<rparr>)
       = [(''+++Pop Anthem.wav'', ''Permission denied'')]"
  by (simp add: process_file_def try_body_def refused_copy name_def is_favorite_def)

text \<open>
  C5, amended. Let the name of the file begin with \<open>+++\<close> and be the name of a
  directory entry. When the operating system refuses nothing, the source is a
  file and no file stands where the category folder or its \<open>_FAVORITES\<close> folder
  has to be, the file is processed without an exception and copied twice: to what
  \<open>get_next_version_filename\<close> gives for \<open>out/category/name\<close>, and to what it
  gives for \<open>out/category/_FAVORITES/name\<close>, each resolved in its own folder on
  the file system as it was before the file was processed. The two destinations
  differ and did not exist; afterwards both hold the content of the source, the
  source and every other existing path are unchanged, so the category copy is
  still there after the favorites copy. The same two copies are made under any
  environment in which the processing of the file records no error. When a copy
  raises, the rest of the processing of the file is skipped: after a failed
  primary copy the favorites copy is not attempted.
\<close>

theorem favorite_copied_twice:
  "is_favorite (name src) \<and> valid_name (name src) \<and> cm src = Some dest_folder \<longrightarrow>
     (let st' = process_file env cm out src st;
          d1 = get_next_version_filename (disk st) (slash out dest_folder @ [name src]);
          d2 = get_next_version_filename (disk st)
                 (slash out (dest_folder @ ''/'' @ FAVORITES_SUBFOLDER) @ [name src]);
          twice =
            (copies st' = copies st @ [(src, d1), (src, d2)]
             \<and> d1 \<noteq> d2 \<and> \<not> path_exists (disk st) d1 \<and> \<not> path_exists (disk st) d2
             \<and> (\<exists>c. lookup (disk st) src = Some (File c)
                   \<and> lookup (disk st') src = Some (File c)
                   \<and> lookup (disk st') d1 = Some (File c)
                   \<and> lookup (disk st') d2 = Some (File c))
             \<and> (\<forall>p n. lookup (disk st) p = Some n \<longrightarrow> lookup (disk st') p = Some n))
      in ((\<forall>fs op. env fs op = None) \<and> (\<exists>c. lookup (disk st) src = Some (File c))
            \<and> clear_way (disk st) (slash out (dest_folder @ ''/'' @ FAVORITES_SUBFOLDER))
          \<longrightarrow> errors st' = errors st \<and> processed st' = processed st + 1 \<and> twice)
         \<and> (errors st' = errors st \<longrightarrow> twice))"
proof (intro impI)
  assume h: "is_favorite (name src) \<and> valid_name (name src) \<and> cm src = Some dest_folder"
  then have fav: "is_favorite (name src)" and vn: "valid_name (name src)"
    and cm: "cm src = Some dest_folder" by simp_all
  let ?st' = "process_file env cm out src st"
  let ?d1 = "get_next_version_filename (disk st) (slash out dest_folder @ [name src])"
  let ?d2 = "get_next_version_filename (disk st)
                 (slash out (dest_folder @ ''/'' @ FAVORITES_SUBFOLDER) @ [name src])"
  let ?twice = "copies ?st' = copies st @ [(src, ?d1), (src, ?d2)]
             \<and> ?d1 \<noteq> ?d2 \<and> \<not> path_exists (disk st) ?d1 \<and> \<not> path_exists (disk st) ?d2
             \<and> (\<exists>c. lookup (disk st) src = Some (File c)
                   \<and> lookup (disk ?st') src = Some (File c)
                   \<and> lookup (disk ?st') ?d1 = Some (File c)
                   \<and> lookup (disk ?st') ?d2 = Some (File c))
             \<and> (\<forall>p n. lookup (disk st) p = Some n \<longrightarrow> lookup (disk ?st') p = Some n)"
  have ret: "?twice \<and> errors ?st' = errors st \<and> processed ?st' = processed st + 1"
    if t: "try_body env cm out src (disk st) = (Return (), fs2, cs)" for fs2 cs
  proof -
    note two = favorite_two_copies [OF fav vn cm t]
    have st': "disk ?st' = fs2" "copies ?st' = copies st @ cs" "errors ?st' = errors st"
      "processed ?st' = processed st + 1"
      using t by (simp_all add: process_file_def)
    have "length ?d1 = length (slash out dest_folder) + 1"
      "length ?d2 = length (slash out (dest_folder @ ''/'' @ FAVORITES_SUBFOLDER)) + 1"
      by (rule get_next_version_length)+
    then have "?d1 \<noteq> ?d2" unfolding slash_favorites by auto
    moreover have "\<not> path_exists (disk st) ?d1" "\<not> path_exists (disk st) ?d2"
      by (rule get_next_version_free)+
    ultimately show ?thesis
      using two st' by (simp add: preserves_def)
  qed
  have a: "errors ?st' = errors st \<and> processed ?st' = processed st + 1 \<and> ?twice"
    if e: "(\<forall>fs op. env fs op = None) \<and> (\<exists>c. lookup (disk st) src = Some (File c))
            \<and> clear_way (disk st) (slash out (dest_folder @ ''/'' @ FAVORITES_SUBFOLDER))"
  proof -
    from e obtain c where c: "lookup (disk st) src = Some (File c)" by blast
    from e have en: "\<forall>fs op. env fs op = None"
      and way: "clear_way (disk st) (slash out (dest_folder @ ''/'' @ FAVORITES_SUBFOLDER))"
      by simp_all
    have "\<exists>fs2 cs. try_body env cm out src (disk st) = (Return (), fs2, cs)"
      using fav vn cm en c way by (rule favorite_no_exception)
    then obtain fs2 cs where "try_body env cm out src (disk st) = (Return (), fs2, cs)" by blast
    from ret [OF this] show ?thesis by blast
  qed
  have b: "?twice" if e: "errors ?st' = errors st"
  proof -
    obtain r fs2 cs where t: "try_body env cm out src (disk st) = (r, fs2, cs)"
      by (cases "try_body env cm out src (disk st)")
    have "r = Return ()" using t e by (cases r) (simp_all add: process_file_def)
    with t ret show ?thesis by blast
  qed
  from a b show "let st' = process_file env cm out src st;
          d1 = get_next_version_filename (disk st) (slash out dest_folder @ [name src]);
          d2 = get_next_version_filename (disk st)
                 (slash out (dest_folder @ ''/'' @ FAVORITES_SUBFOLDER) @ [name src]);
          twice =
            (copies st' = copies st @ [(src, d1), (src, d2)]
             \<and> d1 \<noteq> d2 \<and> \<not> path_exists (disk st) d1 \<and> \<not> path_exists (disk st) d2
             \<and> (\<exists>c. lookup (disk st) src = Some (File c)
                   \<and> lookup (disk st') src = Some (File c)
                   \<and> lookup (disk st') d1 = Some (File c)
                   \<and> lookup (disk st') d2 = Some (File c))
             \<and> (\<forall>p n. lookup (disk st) p = Some n \<longrightarrow> lookup (disk st') p = Some n))
      in ((\<forall>fs op. env fs op = None) \<and> (\<exists>c. lookup (disk st) src = Some (File c))
            \<and> clear_way (disk st) (slash out (dest_folder @ ''/'' @ FAVORITES_SUBFOLDER))
          \<longrightarrow> errors st' = errors st \<and> processed st' = processed st + 1 \<and> twice)
         \<and> (errors st' = errors st \<longrightarrow> twice)"
    unfolding Let_def by blast
qed

text \<open>
  A favorite whose name is taken in the category folder, and taken twice in the
  favorites folder.
\<close>

definition favorite_fs :: filesystem where
  "favorite_fs =
     [([''out'', ''04_Pop_Mainstream'', ''Pop'', ''_FAVORITES'', ''+++Track v2.wav''], File ''d''),
      ([''out'', ''04_Pop_Mainstream'', ''Pop'', ''_FAVORITES'', ''+++Track.wav''], File ''c''),
      ([''out'', ''04_Pop_Mainstream'', ''Pop'', ''_FAVORITES''], Dir),
      ([''out'', ''04_Pop_Mainstream'', ''Pop'', ''+++Track.wav''], File ''b''),
      ([''out'', ''04_Pop_Mainstream'', ''Pop''], Dir),
      ([''out'', ''04_Pop_Mainstream''], Dir),
      ([''out''], Dir),
      ([''in'', ''+++Track.wav''], File ''a''),
      ([''in''], Dir)]"

theorem favorite_copied_twice_witness:
  "copies (process_file (\<lambda>fs op. None) [[''in'', ''+++Track.wav''] \<mapsto> ''04_Pop_Mainstream/Pop'']
      [''out''] [''in'', ''+++Track.wav'']
      \<lparr>disk = favorite_fs, processed = 0, errors = [], copies = []\<rparr>)
     = [([''in'', ''+++Track.wav''],
         [''out'', ''04_Pop_Mainstream'', ''Pop'', ''+++Track v2.wav'']),
        ([''in'', ''+++Track.wav''],
         [''out'', ''04_Pop_Mainstream'', ''Pop'', ''_FAVORITES'', ''+++Track v3.wav''])]
   \<and> errors (process_file (\<lambda>fs op. None) [[''in'', ''+++Track.wav''] \<mapsto> ''04_Pop_Mainstream/Pop'']
      [''out''] [''in'', ''+++Track.wav'']
      \<lparr>disk = favorite_fs, processed = 0, errors = [], copies = []\<rparr>) = []
   \<and> lookup (disk (process_file (\<lambda>fs op. None)
        [[''in'', ''+++Track.wav''] \<mapsto> ''04_Pop_Mainstream/Pop'']
        [''out''] [''in'', ''+++Track.wav'']
        \<lparr>disk = favorite_fs, processed = 0, errors = [], copies = []\<rparr>))
       [''out'', ''04_Pop_Mainstream'', ''Pop'', ''+++Track v2.wav''] = Some (File ''a'')
   \<and> lookup (disk (process_file (\<lambda>fs op. None)
        [[''in'', ''+++Track.wav''] \<mapsto> ''04_Pop_Mainstream/Pop'']
        [''out''] [''in'', ''+++Track.wav'']
        \<lparr>disk = favorite_fs, processed = 0, errors = [], copies = []\<rparr>))
       [''out'', ''04_Pop_Mainstream'', ''Pop'', ''_FAVORITES'', ''+++Track v3.wav'']
       = Some (File ''a'')"
proof -
  let ?env = "\<lambda>(fs :: filesystem) (op :: fsop). None :: string option"
  let ?src = "[''in'', ''+++Track.wav'']"
  let ?cm = "[?src \<mapsto> ''04_Pop_Mainstream/Pop'']"
  let ?st = "\<lparr>disk = favorite_fs, processed = 0, errors = [], copies = []\<rparr>"
  let ?st' = "process_file ?env ?cm [''out''] ?src ?st"
  let ?d1 = "get_next_version_filename (disk ?st)
               (slash [''out''] ''04_Pop_Mainstream/Pop'' @ [name ?src])"
  let ?d2 = "get_next_version_filename (disk ?st)
               (slash [''out''] (''04_Pop_Mainstream/Pop'' @ ''/'' @ FAVORITES_SUBFOLDER)
                  @ [name ?src])"
  have h: "is_favorite (name ?src) \<and> valid_name (name ?src)
      \<and> ?cm ?src = Some ''04_Pop_Mainstream/Pop''"
    by (simp add: name_def is_favorite_def valid_name_def)
  have e: "(\<forall>fs op. ?env fs op = None) \<and> (\<exists>c. lookup (disk ?st) ?src = Some (File c))
      \<and> clear_way (disk ?st)
           (slash [''out''] (''04_Pop_Mainstream/Pop'' @ ''/'' @ FAVORITES_SUBFOLDER))"
    by (simp add: favorite_fs_def lookup_def clear_way_def slash_def components_def
        FAVORITES_SUBFOLDER_def)
  have d1: "?d1 = [''out'', ''04_Pop_Mainstream'', ''Pop'', ''+++Track v2.wav'']"
    by (simp add: fs_eval favorite_fs_def)
  have d2: "?d2 = [''out'', ''04_Pop_Mainstream'', ''Pop'', ''_FAVORITES'', ''+++Track v3.wav'']"
    by (simp add: fs_eval favorite_fs_def FAVORITES_SUBFOLDER_def)
  from favorite_copied_twice [of ?src ?cm "''04_Pop_Mainstream/Pop''" ?env "[''out'']" ?st] h e
  have r: "errors ?st' = errors ?st" "copies ?st' = copies ?st @ [(?src, ?d1), (?src, ?d2)]"
    "\<exists>c. lookup (disk ?st) ?src = Some (File c) \<and> lookup (disk ?st') ?d1 = Some (File c)
        \<and> lookup (disk ?st') ?d2 = Some (File c)"
    unfolding Let_def by blast+
  from r(3) obtain c where "lookup (disk ?st) ?src = Some (File c)"
    and l: "lookup (disk ?st') ?d1 = Some (File c)" "lookup (disk ?st') ?d2 = Some (File c)"
    by blast
  then have "c = ''a''" by (simp add: favorite_fs_def lookup_def)
  with r(1,2) l show ?thesis unfolding d1 d2 by simp
qed


end
